theory Spec2Isabelle
  imports Main "HOL-Library.Sublist"
begin

section \<open>Python strings\<close>

text \<open>
  A Python \<open>str\<close> is modelled as a \<open>string\<close> (a list of \<open>char\<close>), each \<open>char\<close> standing
  for one code point below 256. \<open>str.strip()\<close> removes the code points for which
  \<open>str.isspace\<close> holds; below 256 these are 9..13, 28..32, 0x85 and 0xA0.
\<close>

definition isspace :: "char \<Rightarrow> bool" where
  "isspace c =
     (let n = (of_char c :: nat)
      in (9 \<le> n \<and> n \<le> 13) \<or> (28 \<le> n \<and> n \<le> 32) \<or> n = 133 \<or> n = 160)"

definition py_strip :: "string \<Rightarrow> string" where
  "py_strip s = rev (dropWhile isspace (rev (dropWhile isspace s)))"

text \<open>\<open>s.split(sep)\<close> for a one-character separator: never an empty list.\<close>

fun py_split :: "char \<Rightarrow> string \<Rightarrow> string list" where
  "py_split sep [] = [[]]"
| "py_split sep (c # cs) =
     (if c = sep then [] # py_split sep cs
      else (case py_split sep cs of
              [] \<Rightarrow> [[c]]
            | piece # pieces \<Rightarrow> (c # piece) # pieces))"

text \<open>\<open>s.replace(old, new)\<close> for one-character \<open>old\<close> and \<open>new\<close>.\<close>

definition py_replace :: "char \<Rightarrow> char \<Rightarrow> string \<Rightarrow> string" where
  "py_replace old new s = map (\<lambda>c. if c = old then new else c) s"

text \<open>
  A file opened with \<open>open(path, 'r')\<close> is read in text mode with universal newlines:
  \<open>\r\n\<close> and a lone \<open>\r\<close> arrive as \<open>\n\<close>. Iterating over the file yields the lines, each
  with its terminating \<open>\n\<close> (the last one possibly without).
\<close>

fun universal_newlines :: "string \<Rightarrow> string" where
  "universal_newlines [] = []"
| "universal_newlines [c] = (if c = CHR 0x0D then [CHR 0x0A] else [c])"
| "universal_newlines (c # d # cs) =
     (if c = CHR 0x0D
      then (if d = CHR 0x0A then CHR 0x0A # universal_newlines cs
            else CHR 0x0A # universal_newlines (d # cs))
      else c # universal_newlines (d # cs))"

fun readlines :: "string \<Rightarrow> string list" where
  "readlines [] = []"
| "readlines (c # cs) =
     (if c = CHR 0x0A then [c] # readlines cs
      else (case readlines cs of
              [] \<Rightarrow> [[c]]
            | line # lines \<Rightarrow> (c # line) # lines))"

text \<open>Truth value of an optional string (\<open>None\<close> and \<open>''\<close> are false).\<close>

definition truthy :: "string option \<Rightarrow> bool" where
  "truthy s = (case s of None \<Rightarrow> False | Some t \<Rightarrow> t \<noteq> [])"

section \<open>The world the script acts on\<close>

text \<open>
  The device dictionary handed to \<open>ConnectHandler\<close>.
\<close>

record device =
  device_type :: string
  dev_host :: string
  dev_username :: string
  dev_password :: string
  port :: nat
  fast_cli :: bool

text \<open>
  Effects are recorded in a trace, in program order. \<open>Print\<close> is a line given to
  \<open>print\<close>; \<open>PrintSaved p\<close> is the line of \<open>print(f"\n<U+2705> Output saved to: {p}")\<close>, whose
  check mark lies outside the modelled character range; \<open>GetPass\<close> is a call of
  \<open>getpass.getpass\<close> with its prompt; \<open>OpenRead\<close> and \<open>OpenWrite\<close> are calls of \<open>open\<close>;
  \<open>MakeDirs\<close> is \<open>os.makedirs(..., exist_ok=True)\<close>; the other three are the calls into
  netmiko.
\<close>

datatype event =
    Print string
  | PrintSaved string
  | GetPass string
  | OpenRead string
  | OpenWrite string
  | MakeDirs string
  | ConnectHandlerCall device
  | SendCommand string
  | Disconnect

text \<open>
  The file system maps a path to the text of the file there; a path without a file is
  \<open>None\<close> (\<open>FileNotFoundError\<close> on reading). Other I/O failures are not modelled.
\<close>

record world =
  files :: "string \<rightharpoonup> string"
  events :: "event list"

definition emit :: "event \<Rightarrow> world \<Rightarrow> world" where
  "emit e w = w\<lparr>events := events w @ [e]\<rparr>"

text \<open>\<open>open(path, 'w')\<close> creates or truncates the file; \<open>log.write(s)\<close> appends to it.\<close>

definition open_w :: "string \<Rightarrow> world \<Rightarrow> world" where
  "open_w path w = emit (OpenWrite path) (w\<lparr>files := (files w)(path \<mapsto> [])\<rparr>)"

definition log_write :: "string \<Rightarrow> string \<Rightarrow> world \<Rightarrow> world" where
  "log_write path s w =
     w\<lparr>files := (files w)(path \<mapsto> (case files w path of None \<Rightarrow> s | Some old \<Rightarrow> old @ s))\<rparr>"

section \<open>load_commands\<close>

record args =
  args_host :: string
  args_username :: string
  args_commands :: "string option"
  args_file :: "string option"

definition load_commands :: "args \<Rightarrow> world \<Rightarrow> string list option \<times> world" where
  "load_commands a w =
     (if truthy (args_file a) then
        (let path = the (args_file a);
             w1 = emit (OpenRead path) w
         in case files w path of
              None \<Rightarrow>
                (None,
                 emit (Print (''[ERROR] Command file '' @ [CHR 0x27] @ path @ [CHR 0x27]
                                @ '' not found.'')) w1)
            | Some text \<Rightarrow>
                (let commands =
                       [py_strip line. line \<leftarrow> readlines (universal_newlines text),
                                       py_strip line \<noteq> []]
                 in if commands = []
                    then (None, emit (Print ''[ERROR] Command file was empty.'') w1)
                    else (Some commands, w1)))
      else if truthy (args_commands a) then
        (Some [py_strip cmd. cmd \<leftarrow> py_split (CHR '','') (the (args_commands a)),
                             py_strip cmd \<noteq> []], w)
      else
        (None,
         emit (Print ''[ERROR] You must provide commands with --commands or a file with --file'')
           w))"

section \<open>validate_ip\<close>

text \<open>
  \<open>validate_ip\<close> calls \<open>ipaddress.ip_address\<close> of the Python standard library and turns its
  \<open>ValueError\<close> into \<open>False\<close>. The library's string parsers are modelled here after
  CPython 3.11 (\<open>Lib/ipaddress.py\<close>): \<open>IPv4Address\<close>, \<open>IPv6Address\<close> and the helpers
  they call, with every \<open>raise\<close> as an \<open>Inl\<close>. The shifts and masks on Python's unbounded
  integers are written arithmetically: \<open>x << 16 | h\<close> with \<open>h < 65536\<close> is
  \<open>65536 * x + h\<close>, and \<open>(x >> 16) & 0xFFFF\<close> is \<open>x div 65536 mod 65536\<close>.
\<close>

datatype exn = ValueError | AddressValueError

datatype ip_addr = IPv4Addr nat | IPv6Addr nat "string option"

definition int_of_digits :: "nat \<Rightarrow> (char \<Rightarrow> nat) \<Rightarrow> string \<Rightarrow> nat" where
  "int_of_digits base val s = foldl (\<lambda>n c. base * n + val c) 0 s"

definition decimal_val :: "char \<Rightarrow> nat" where
  "decimal_val c = of_char c - 48"

definition hex_val :: "char \<Rightarrow> nat" where
  "hex_val c =
     (if c \<in> set ''0123456789'' then of_char c - 48
      else if c \<in> set ''abcdef'' then of_char c - 87
      else of_char c - 55)"

fun parse_all :: "(string \<Rightarrow> exn + nat) \<Rightarrow> string list \<Rightarrow> exn + nat list" where
  "parse_all f [] = Inr []"
| "parse_all f (p # ps) =
     (case f p of
        Inl e \<Rightarrow> Inl e
      | Inr n \<Rightarrow> (case parse_all f ps of Inl e \<Rightarrow> Inl e | Inr ns \<Rightarrow> Inr (n # ns)))"

definition parse_octet :: "string \<Rightarrow> exn + nat" where
  "parse_octet octet_str =
     (if octet_str = [] then Inl ValueError
      else if \<not> list_all (\<lambda>c. c \<in> set ''0123456789'') octet_str then Inl ValueError
      else if length octet_str > 3 then Inl ValueError
      else if octet_str \<noteq> ''0'' \<and> take 1 octet_str = ''0'' then Inl ValueError
      else (let octet_int = int_of_digits 10 decimal_val octet_str
            in if octet_int > 255 then Inl ValueError else Inr octet_int))"

definition ipv4_int_from_string :: "string \<Rightarrow> exn + nat" where
  "ipv4_int_from_string ip_str =
     (if ip_str = [] then Inl AddressValueError
      else (let octets = py_split (CHR ''.'') ip_str
            in if length octets \<noteq> 4 then Inl AddressValueError
               else (case parse_all parse_octet octets of
                       Inl e \<Rightarrow> Inl AddressValueError
                     | Inr bs \<Rightarrow> Inr (foldl (\<lambda>n b. 256 * n + b) 0 bs))))"

definition IPv4Address :: "string \<Rightarrow> exn + nat" where
  "IPv4Address addr_str =
     (if CHR ''/'' \<in> set addr_str then Inl AddressValueError
      else ipv4_int_from_string addr_str)"

definition parse_hextet :: "string \<Rightarrow> exn + nat" where
  "parse_hextet hextet_str =
     (if \<not> list_all (\<lambda>c. c \<in> set ''0123456789ABCDEFabcdef'') hextet_str then Inl ValueError
      else if length hextet_str > 4 then Inl ValueError
      else if hextet_str = [] then Inl ValueError
      else Inr (int_of_digits 16 hex_val hextet_str))"

text \<open>\<open>'%x' % n\<close>: lower-case hexadecimal without leading zeros.\<close>

function hex_str :: "nat \<Rightarrow> string" where
  "hex_str n =
     (if n < 16 then [''0123456789abcdef'' ! n]
      else hex_str (n div 16) @ [''0123456789abcdef'' ! (n mod 16)])"
  by pat_completeness auto
termination
  by (relation "measure (\<lambda>n. n)") auto

declare hex_str.simps [simp del]

text \<open>The loop that looks for one empty part strictly between the endpoints.\<close>

fun find_skip :: "string list \<Rightarrow> nat list \<Rightarrow> nat option \<Rightarrow> exn + nat option" where
  "find_skip parts [] skip_index = Inr skip_index"
| "find_skip parts (i # is) skip_index =
     (if parts ! i = []
      then (if skip_index \<noteq> None then Inl AddressValueError
            else find_skip parts is (Some i))
      else find_skip parts is skip_index)"

text \<open>The numbers of parts before and after \<open>::\<close>, and of the hextets it stands for.\<close>

definition count_parts :: "string list \<Rightarrow> nat option \<Rightarrow> exn + int \<times> int \<times> int" where
  "count_parts parts skip_index =
     (case skip_index of
        Some i \<Rightarrow>
          (let parts_hi = int i;
               parts_lo = int (length parts) - int i - 1;
               parts_hi' = (if hd parts = [] then parts_hi - 1 else parts_hi);
               parts_lo' = (if last parts = [] then parts_lo - 1 else parts_lo)
           in if hd parts = [] \<and> parts_hi' \<noteq> 0 then Inl AddressValueError
              else if last parts = [] \<and> parts_lo' \<noteq> 0 then Inl AddressValueError
              else (let parts_skipped = 8 - (parts_hi' + parts_lo')
                    in if parts_skipped < 1 then Inl AddressValueError
                       else Inr (parts_hi', parts_lo', parts_skipped)))
      | None \<Rightarrow>
          (if length parts \<noteq> 8 then Inl AddressValueError
           else if hd parts = [] then Inl AddressValueError
           else if last parts = [] then Inl AddressValueError
           else Inr (int (length parts), 0, 0)))"

definition ipv6_int_from_string :: "string \<Rightarrow> exn + nat" where
  "ipv6_int_from_string ip_str =
     (if ip_str = [] then Inl AddressValueError
      else (let parts = py_split (CHR '':'') ip_str
            in if length parts < 3 then Inl AddressValueError
               else
                 (case (if CHR ''.'' \<in> set (last parts)
                        then (case IPv4Address (last parts) of
                                Inl e \<Rightarrow> Inl AddressValueError
                              | Inr ipv4_int \<Rightarrow>
                                  Inr (butlast parts
                                       @ [hex_str (ipv4_int div 65536 mod 65536),
                                          hex_str (ipv4_int mod 65536)]))
                        else Inr parts) of
                    Inl e \<Rightarrow> Inl e
                  | Inr parts \<Rightarrow>
                      if length parts > 9 then Inl AddressValueError
                      else
                        (case find_skip parts [1..<length parts - 1] None of
                           Inl e \<Rightarrow> Inl e
                         | Inr skip_index \<Rightarrow>
                             (case count_parts parts skip_index of
                                Inl e \<Rightarrow> Inl e
                              | Inr (parts_hi, parts_lo, parts_skipped) \<Rightarrow>
                                  (case parse_all parse_hextet (take (nat parts_hi) parts) of
                                     Inl e \<Rightarrow> Inl AddressValueError
                                   | Inr his \<Rightarrow>
                                       (case parse_all parse_hextet
                                               (drop (length parts - nat parts_lo) parts) of
                                          Inl e \<Rightarrow> Inl AddressValueError
                                        | Inr los \<Rightarrow>
                                            Inr (foldl (\<lambda>n h. 65536 * n + h)
                                                   (foldl (\<lambda>n h. 65536 * n + h) 0 his
                                                      * 65536 ^ nat parts_skipped)
                                                   los))))))))"

text \<open>\<open>ip_str.partition('%')\<close>, with the checks on the scope id.\<close>

definition split_scope_id :: "string \<Rightarrow> exn + string \<times> string option" where
  "split_scope_id ip_str =
     (let addr = takeWhile (\<lambda>c. c \<noteq> CHR ''%'') ip_str;
          rest = dropWhile (\<lambda>c. c \<noteq> CHR ''%'') ip_str
      in if rest = [] then Inr (addr, None)
         else if tl rest = [] \<or> CHR ''%'' \<in> set (tl rest) then Inl AddressValueError
         else Inr (addr, Some (tl rest)))"

definition IPv6Address :: "string \<Rightarrow> exn + nat \<times> string option" where
  "IPv6Address addr_str =
     (if CHR ''/'' \<in> set addr_str then Inl AddressValueError
      else (case split_scope_id addr_str of
              Inl e \<Rightarrow> Inl e
            | Inr (addr, scope_id) \<Rightarrow>
                (case ipv6_int_from_string addr of
                   Inl e \<Rightarrow> Inl e
                 | Inr ip \<Rightarrow> Inr (ip, scope_id))))"

definition ip_address :: "string \<Rightarrow> exn + ip_addr" where
  "ip_address address =
     (case IPv4Address address of
        Inr ip \<Rightarrow> Inr (IPv4Addr ip)
      | Inl e \<Rightarrow>
          (case IPv6Address address of
             Inr (ip, scope_id) \<Rightarrow> Inr (IPv6Addr ip scope_id)
           | Inl e \<Rightarrow> Inl ValueError))"

definition validate_ip :: "string \<Rightarrow> bool" where
  "validate_ip ip_str = (case ip_address ip_str of Inr ip \<Rightarrow> True | Inl e \<Rightarrow> False)"

section \<open>connect_and_run_commands\<close>

text \<open>\<open>str(n)\<close> for a natural number, and \<open>s.zfill(width)\<close>.\<close>

function str_nat :: "nat \<Rightarrow> string" where
  "str_nat n =
     (if n < 10 then [''0123456789'' ! n]
      else str_nat (n div 10) @ [''0123456789'' ! (n mod 10)])"
  by pat_completeness auto
termination
  by (relation "measure (\<lambda>n. n)") auto

declare str_nat.simps [simp del]

definition zfill :: "nat \<Rightarrow> string \<Rightarrow> string" where
  "zfill width s = replicate (width - length s) (CHR ''0'') @ s"

text \<open>
  The value of \<open>datetime.now()\<close>, and \<open>strftime("%Y%m%d_%H%M%S")\<close> on it: the year on four
  digits, the other fields on two, zero-padded.
\<close>

record datetime =
  dt_year :: nat
  dt_month :: nat
  dt_day :: nat
  dt_hour :: nat
  dt_minute :: nat
  dt_second :: nat

definition strftime :: "datetime \<Rightarrow> string" where
  "strftime dt =
     zfill 4 (str_nat (dt_year dt)) @ zfill 2 (str_nat (dt_month dt))
     @ zfill 2 (str_nat (dt_day dt)) @ ''_'' @ zfill 2 (str_nat (dt_hour dt))
     @ zfill 2 (str_nat (dt_minute dt)) @ zfill 2 (str_nat (dt_second dt))"

text \<open>\<open>os.path.join(a, b)\<close> as \<open>posixpath.join\<close> computes it.\<close>

definition os_path_join :: "string \<Rightarrow> string \<Rightarrow> string" where
  "os_path_join a b =
     (if take 1 b = ''/'' then b
      else if a = [] \<or> (a \<noteq> [] \<and> last a = CHR ''/'') then a @ b
      else a @ ''/'' @ b)"

text \<open>
  What netmiko can raise, by the \<open>except\<close> clause that catches it; \<open>OtherException\<close>
  carries \<open>str(e)\<close>. A session answers \<open>send_command(cmd)\<close> from the commands sent on it
  before and \<open>cmd\<close>. \<open>ConnectHandler\<close> maps the device dictionary to a session or raises.
  \<open>disconnect\<close> does not raise.
\<close>

datatype fault =
    NetmikoTimeoutException
  | NetmikoAuthenticationException
  | OtherException string

type_synonym session = "string list \<Rightarrow> string \<Rightarrow> fault + string"

text \<open>The three \<open>except\<close> clauses.\<close>

definition handle_fault :: "fault \<Rightarrow> string \<Rightarrow> string \<Rightarrow> world \<Rightarrow> world" where
  "handle_fault f host username w =
     (case f of
        NetmikoTimeoutException \<Rightarrow>
          emit (Print (''[ERROR] Connection to '' @ host @ '' timed out.'')) w
      | NetmikoAuthenticationException \<Rightarrow>
          emit (Print (''[ERROR] Authentication failed for '' @ username @ ''@'' @ host @ ''.'')) w
      | OtherException e \<Rightarrow>
          emit (Print (''[ERROR] An unexpected error occurred: '' @ e)) w)"

text \<open>The text of \<open>log.write(f"\n--- {cmd} ---\n{output}\n")\<close>.\<close>

definition log_entry :: "string \<Rightarrow> string \<Rightarrow> string" where
  "log_entry cmd output = ''\<newline>--- '' @ cmd @ '' ---\<newline>'' @ output @ ''\<newline>''"

text \<open>
  The \<open>for cmd in commands\<close> loop inside \<open>with open(log_file, 'w') as log\<close>. It returns the
  fault that left the loop, if any; the file keeps what was written before.
\<close>

fun run_commands ::
  "session \<Rightarrow> string list \<Rightarrow> string \<Rightarrow> string list \<Rightarrow> world \<Rightarrow> fault option \<times> world" where
  "run_commands net_connect sent log_file [] w = (None, w)"
| "run_commands net_connect sent log_file (cmd # cmds) w =
     (let w1 = emit (Print (''\<newline>[Running] '' @ cmd)) w;
          w2 = emit (SendCommand cmd) w1
      in case net_connect sent cmd of
           Inl f \<Rightarrow> (Some f, w2)
         | Inr output \<Rightarrow>
             (let w3 = emit (Print output) w2;
                  w4 = log_write log_file (log_entry cmd output) w3
              in run_commands net_connect (sent @ [cmd]) log_file cmds w4))"

definition connect_and_run_commands ::
  "(device \<Rightarrow> fault + session) \<Rightarrow> datetime \<Rightarrow> string \<Rightarrow> string \<Rightarrow> string \<Rightarrow> string list
     \<Rightarrow> string \<Rightarrow> world \<Rightarrow> bool \<times> world" where
  "connect_and_run_commands ConnectHandler now host username password commands log_dir w =
     (let device = \<lparr>device_type = ''cisco_s300'', dev_host = host, dev_username = username,
                     dev_password = password, port = 22, fast_cli = False\<rparr>;
          w1 = emit (Print (''\<newline>Connecting to '' @ host @ ''...'')) w;
          w2 = emit (ConnectHandlerCall device) w1
      in case ConnectHandler device of
           Inl f \<Rightarrow> (False, handle_fault f host username w2)
         | Inr net_connect \<Rightarrow>
             (let timestamp = strftime now;
                  log_file = os_path_join log_dir
                               (py_replace (CHR ''.'') (CHR ''_'') host @ ''_'' @ timestamp
                                @ ''.log'');
                  w3 = emit (MakeDirs log_dir) w2;
                  w4 = open_w log_file w3
              in case run_commands net_connect [] log_file commands w4 of
                   (Some f, w5) \<Rightarrow> (False, handle_fault f host username w5)
                 | (None, w5) \<Rightarrow>
                     (True, emit Disconnect (emit (PrintSaved log_file) w5))))"

section \<open>main\<close>

text \<open>
  What the outside answers at the attempt with a given number: the password typed at the
  prompt, the behaviour of the network, and the clock.
\<close>

record env =
  env_getpass :: "nat \<Rightarrow> string"
  env_ConnectHandler :: "nat \<Rightarrow> device \<Rightarrow> fault + session"
  env_now :: "nat \<Rightarrow> datetime"

text \<open>
  The loop \<open>for attempt in range(1, max_password_attempts + 1)\<close>, over the attempt numbers
  still to come.
\<close>

fun password_attempts ::
  "env \<Rightarrow> args \<Rightarrow> string list \<Rightarrow> nat \<Rightarrow> nat list \<Rightarrow> world \<Rightarrow> world" where
  "password_attempts e a commands max_password_attempts [] w = w"
| "password_attempts e a commands max_password_attempts (attempt # rest) w =
     (let w1 = emit (GetPass (''Enter SSH password (attempt '' @ str_nat attempt @ ''/''
                                @ str_nat max_password_attempts @ ''): '')) w;
          password = env_getpass e attempt
      in case connect_and_run_commands (env_ConnectHandler e attempt) (env_now e attempt)
                (args_host a) (args_username a) password commands ''logs'' w1 of
           (success, w2) \<Rightarrow>
             if success then w2
             else if attempt = max_password_attempts
             then password_attempts e a commands max_password_attempts rest
                    (emit (Print (''[ERROR] Maximum password attempts (''
                                  @ str_nat max_password_attempts @ '') reached. Exiting.'')) w2)
             else password_attempts e a commands max_password_attempts rest w2)"

definition main :: "env \<Rightarrow> args \<Rightarrow> world \<Rightarrow> world" where
  "main e a w =
     (if \<not> validate_ip (args_host a)
      then emit (Print (''[ERROR] '' @ args_host a @ '' is NOT a valid IP address.'')) w
      else (case load_commands a w of
              (None, w1) \<Rightarrow> w1
            | (Some commands, w1) \<Rightarrow>
                if commands = [] then w1
                else password_attempts e a commands 3 [1..<3 + 1] w1))"

section \<open>Notions used to state the claims\<close>

text \<open>
  \<open>answers net_connect sent cmds outputs\<close>: on a session on which \<open>sent\<close> was sent before,
  \<open>send_command\<close> returns for each command of \<open>cmds\<close>, sent in order, the output at the same
  position of \<open>outputs\<close>, and raises for none of them.
\<close>

fun answers :: "session \<Rightarrow> string list \<Rightarrow> string list \<Rightarrow> string list \<Rightarrow> bool" where
  "answers net_connect sent [] [] = True"
| "answers net_connect sent (cmd # cmds) (output # outputs) =
     (net_connect sent cmd = Inr output \<and> answers net_connect (sent @ [cmd]) cmds outputs)"
| "answers net_connect sent cmds outputs = False"

text \<open>The dictionary \<open>device\<close> and the path \<open>log_file\<close> that the function builds.\<close>

definition device_for :: "string \<Rightarrow> string \<Rightarrow> string \<Rightarrow> device" where
  "device_for host username password =
     \<lparr>device_type = ''cisco_s300'', dev_host = host, dev_username = username,
      dev_password = password, port = 22, fast_cli = False\<rparr>"

definition log_file_for :: "string \<Rightarrow> string \<Rightarrow> datetime \<Rightarrow> string" where
  "log_file_for log_dir host now =
     os_path_join log_dir
       (py_replace (CHR ''.'') (CHR ''_'') host @ ''_'' @ strftime now @ ''.log'')"

text \<open>
  The events of a session up to the opening of the log file, and those of one command that
  is answered.
\<close>

definition session_opening ::
  "string \<Rightarrow> string \<Rightarrow> string \<Rightarrow> string \<Rightarrow> datetime \<Rightarrow> event list" where
  "session_opening log_dir host username password now =
     [Print (''\<newline>Connecting to '' @ host @ ''...''),
      ConnectHandlerCall (device_for host username password),
      MakeDirs log_dir, OpenWrite (log_file_for log_dir host now)]"

definition command_events :: "string \<Rightarrow> string \<Rightarrow> event list" where
  "command_events cmd output =
     [Print (''\<newline>[Running] '' @ cmd), SendCommand cmd, Print output]"

text \<open>
  The values of \<open>datetime.now()\<close> on which \<open>strftime\<close> pads as modelled, for every platform:
  a year of four digits and the other fields in the ranges of the type.
\<close>

definition datetime_ok :: "datetime \<Rightarrow> bool" where
  "datetime_ok dt =
     (1000 \<le> dt_year dt \<and> dt_year dt \<le> 9999 \<and> 1 \<le> dt_month dt \<and> dt_month dt \<le> 12
      \<and> 1 \<le> dt_day dt \<and> dt_day dt \<le> 31 \<and> dt_hour dt \<le> 23 \<and> dt_minute dt \<le> 59
      \<and> dt_second dt \<le> 59)"

definition is_digit :: "char \<Rightarrow> bool" where
  "is_digit c = (c \<in> set ''0123456789'')"

text \<open>
  The transcript entry in the words of the specification of the logger: a header line
  containing the command, followed by the raw output, with a trailing blank line. The header
  is the one the script writes.
\<close>

definition spec_transcript_entry :: "string \<Rightarrow> string \<Rightarrow> string" where
  "spec_transcript_entry cmd output =
     ''--- '' @ cmd @ '' ---\<newline>'' @ output @ ''\<newline>'' @ ''\<newline>''"

text \<open>The paths of the \<open>open(..., 'w')\<close> calls in a trace.\<close>

fun opened_for_writing :: "event list \<Rightarrow> string list" where
  "opened_for_writing [] = []"
| "opened_for_writing (OpenWrite path # es) = path # opened_for_writing es"
| "opened_for_writing (e # es) = opened_for_writing es"

text \<open>
  The prompts of the \<open>getpass\<close> calls in a trace, the prompt of an attempt, and whether the
  session of an attempt succeeds (which does not depend on the state of the world it starts
  in).
\<close>

fun prompts_of :: "event list \<Rightarrow> string list" where
  "prompts_of [] = []"
| "prompts_of (GetPass prompt # es) = prompt # prompts_of es"
| "prompts_of (e # es) = prompts_of es"



section \<open>The textual forms of addresses\<close>

text \<open>
  The strings that are syntactically valid addresses, written down without reference to the
  parsers. \<open>joined sep pieces\<close> is \<open>sep.join(pieces)\<close>. An IPv4 address is written as a
  dotted quad: four decimal numbers from 0 to 255, without leading zeros, joined by dots.
  An IPv6 address is written as eight groups of 16 bits joined by colons, each group a
  hextet of one to four hexadecimal digits, where the last two groups may together be
  written as a dotted quad, and where one run of one or more groups that are zero may be
  left out and written \<open>::\<close>; a zone identifier, any non-empty text without \<open>%\<close> and \<open>/\<close>,
  may follow after \<open>%\<close>.
\<close>

fun joined :: "char \<Rightarrow> string list \<Rightarrow> string" where
  "joined sep [] = []"
| "joined sep [piece] = piece"
| "joined sep (piece # pieces) = piece @ sep # joined sep pieces"

definition dotted_quad :: "string \<Rightarrow> bool" where
  "dotted_quad t =
     (\<exists>a b c d. a \<le> 255 \<and> b \<le> 255 \<and> c \<le> 255 \<and> d \<le> 255
        \<and> t = joined (CHR ''.'') [str_nat a, str_nat b, str_nat c, str_nat d])"

definition hextet :: "string \<Rightarrow> bool" where
  "hextet t =
     (1 \<le> length t \<and> length t \<le> 4 \<and> list_all (\<lambda>c. c \<in> set ''0123456789ABCDEFabcdef'') t)"

text \<open>\<open>groups n gs\<close>: the texts \<open>gs\<close> stand for \<open>n\<close> groups.\<close>

definition groups :: "nat \<Rightarrow> string list \<Rightarrow> bool" where
  "groups n gs =
     (list_all hextet gs \<and> length gs = n
      \<or> gs \<noteq> [] \<and> list_all hextet (butlast gs) \<and> dotted_quad (last gs)
        \<and> length gs + 1 = n)"

definition ipv6_text :: "string \<Rightarrow> bool" where
  "ipv6_text t =
     ((\<exists>gs. groups 8 gs \<and> t = joined (CHR '':'') gs)
      \<or> (\<exists>hi lo n. list_all hextet hi \<and> groups n lo \<and> length hi + n \<le> 7
            \<and> t = joined (CHR '':'') hi @ ''::'' @ joined (CHR '':'') lo))"

definition valid_ipv4_string :: "string \<Rightarrow> bool" where
  "valid_ipv4_string t = dotted_quad t"

definition valid_ipv6_string :: "string \<Rightarrow> bool" where
  "valid_ipv6_string t =
     (ipv6_text t
      \<or> (\<exists>addr zone. ipv6_text addr \<and> zone \<noteq> [] \<and> CHR ''%'' \<notin> set zone
            \<and> CHR ''/'' \<notin> set zone \<and> t = addr @ ''%'' @ zone))"

text \<open>
  What \<open>_ip_int_from_string\<close> of \<open>IPv6Address\<close> checks on the parts between the colons, once a
  dotted quad at the end has been replaced by two hextets: the number of parts, the place
  of the \<open>::\<close>, and the hextets before and after it.
\<close>

definition parts_accepted :: "string list \<Rightarrow> bool" where
  "parts_accepted ps =
     (length ps \<le> 9
      \<and> (\<exists>skip_index parts_hi parts_lo parts_skipped.
            find_skip ps [1..<length ps - 1] None = Inr skip_index
            \<and> count_parts ps skip_index = Inr (parts_hi, parts_lo, parts_skipped)
            \<and> list_all hextet (take (nat parts_hi) ps)
            \<and> list_all hextet (drop (length ps - nat parts_lo) ps)))"

section \<open>Facts about the string helpers\<close>

lemma last_dropWhile_ne: "dropWhile P xs \<noteq> [] \<Longrightarrow> last (dropWhile P xs) = last xs"
  by (induction xs) (auto split: if_splits)

lemma py_strip_trimmed:
  assumes "py_strip s \<noteq> []"
  shows "\<not> isspace (hd (py_strip s)) \<and> \<not> isspace (last (py_strip s))"
proof -
  define t where "t = dropWhile isspace s"
  define x where "x = dropWhile isspace (rev t)"
  have strip: "py_strip s = rev x" by (simp add: py_strip_def x_def t_def)
  from assms have x: "x \<noteq> []" by (simp add: strip)
  have t: "t \<noteq> []"
  proof
    assume "t = []"
    then have "x = []" by (simp add: x_def)
    with x show False by simp
  qed
  have "hd (py_strip s) = last x" using x by (simp add: strip hd_rev)
  also have "\<dots> = last (rev t)" using x unfolding x_def by (rule last_dropWhile_ne)
  also have "\<dots> = hd t" using t by (simp add: last_rev)
  finally have h: "hd (py_strip s) = hd t" .
  have "\<not> isspace (hd t)" using t unfolding t_def by (rule hd_dropWhile)
  moreover have "last (py_strip s) = hd x" using x by (simp add: strip last_rev)
  moreover have "\<not> isspace (hd x)" using x unfolding x_def by (rule hd_dropWhile)
  ultimately show ?thesis using h by simp
qed

text \<open>What \<open>load_commands\<close> returns, branch by branch.\<close>

lemma load_commands_file_missing:
  assumes "args_file a = Some path" "path \<noteq> []" "files w path = None"
  shows "load_commands a w =
           (None, emit (Print (''[ERROR] Command file '' @ [CHR 0x27] @ path @ [CHR 0x27]
                                 @ '' not found.'')) (emit (OpenRead path) w))"
  using assms by (simp add: load_commands_def truthy_def)

lemma load_commands_file_present:
  assumes "args_file a = Some path" "path \<noteq> []" "files w path = Some text"
  shows "load_commands a w =
           (let commands = filter (\<lambda>c. c \<noteq> [])
                             (map py_strip (readlines (universal_newlines text)))
            in if commands = []
               then (None, emit (Print ''[ERROR] Command file was empty.'')
                             (emit (OpenRead path) w))
               else (Some commands, emit (OpenRead path) w))"
proof -
  have "[py_strip line. line \<leftarrow> ls, py_strip line \<noteq> []]
          = filter (\<lambda>c. c \<noteq> []) (map py_strip ls)" for ls
    by (induction ls) simp_all
  then show ?thesis using assms by (simp add: load_commands_def truthy_def Let_def)
qed

lemma load_commands_inline:
  assumes "\<not> truthy (args_file a)" "args_commands a = Some s" "s \<noteq> []"
  shows "load_commands a w =
           (Some (filter (\<lambda>c. c \<noteq> []) (map py_strip (py_split (CHR '','') s))), w)"
proof -
  have "[py_strip cmd. cmd \<leftarrow> ps, py_strip cmd \<noteq> []]
          = filter (\<lambda>c. c \<noteq> []) (map py_strip ps)" for ps
    by (induction ps) simp_all
  then show ?thesis using assms by (simp add: load_commands_def truthy_def)
qed

lemma load_commands_no_source:
  assumes "\<not> truthy (args_file a)" "\<not> truthy (args_commands a)"
  shows "load_commands a w =
           (None, emit (Print
              ''[ERROR] You must provide commands with --commands or a file with --file'') w)"
  using assms by (simp add: load_commands_def)

lemma load_commands_trimmed:
  assumes "load_commands a w = (Some cs, w')" "c \<in> set cs"
  shows "c \<noteq> [] \<and> \<not> isspace (hd c) \<and> \<not> isspace (last c)"
proof -
  have "\<exists>ls. cs = filter (\<lambda>c. c \<noteq> []) (map py_strip ls)"
  proof (cases "truthy (args_file a)")
    case True
    then obtain path where p: "args_file a = Some path" "path \<noteq> []"
      by (auto simp: truthy_def split: option.splits)
    show ?thesis
    proof (cases "files w path")
      case None
      with p assms(1) show ?thesis by (simp add: load_commands_file_missing)
    next
      case (Some body)
      with p assms(1) show ?thesis
        by (auto simp: load_commands_file_present Let_def split: if_splits)
    qed
  next
    case False
    show ?thesis
    proof (cases "truthy (args_commands a)")
      case True
      then obtain s where "args_commands a = Some s" "s \<noteq> []"
        by (auto simp: truthy_def split: option.splits)
      with False assms(1) show ?thesis by (auto simp: load_commands_inline)
    next
      case no: False
      with False assms(1) show ?thesis by (simp add: load_commands_no_source)
    qed
  qed
  then obtain ls where "cs = filter (\<lambda>c. c \<noteq> []) (map py_strip ls)" ..
  with assms(2) obtain l where "c = py_strip l" "py_strip l \<noteq> []" by auto
  then show ?thesis using py_strip_trimmed [of l] by simp
qed

section \<open>Facts about a session\<close>

lemma files_emit [simp]: "files (emit e w) = files w"
  by (simp add: emit_def)

lemma events_emit [simp]: "events (emit e w) = events w @ [e]"
  by (simp add: emit_def)

lemma files_log_write [simp]:
  "files (log_write p s w)
     = (files w)(p \<mapsto> (case files w p of None \<Rightarrow> s | Some old \<Rightarrow> old @ s))"
  by (simp add: log_write_def)

lemma events_log_write [simp]: "events (log_write p s w) = events w"
  by (simp add: log_write_def)

lemma files_open_w [simp]: "files (open_w p w) = (files w)(p \<mapsto> [])"
  by (simp add: open_w_def)

lemma events_open_w [simp]: "events (open_w p w) = events w @ [OpenWrite p]"
  by (simp add: open_w_def)

lemma files_handle_fault [simp]: "files (handle_fault f h u w) = files w"
  by (cases f) (simp_all add: handle_fault_def)


lemma run_commands_step:
  assumes "s sent cmd = Inr out"
  shows "run_commands s sent lf (cmd # cmds) w =
           run_commands s (sent @ [cmd]) lf cmds
             (log_write lf (log_entry cmd out)
                (emit (Print out) (emit (SendCommand cmd)
                   (emit (Print (''\<newline>[Running] '' @ cmd)) w))))"
  using assms by (simp add: Let_def)

lemma run_commands_stop:
  assumes "s sent cmd = Inl f"
  shows "run_commands s sent lf (cmd # cmds) w =
           (Some f, emit (SendCommand cmd) (emit (Print (''\<newline>[Running] '' @ cmd)) w))"
  using assms by (simp add: Let_def)

text \<open>The loop when every command is answered.\<close>

lemma run_commands_answers:
  assumes "answers s sent cmds outs" "files w lf = Some old"
  shows "run_commands s sent lf cmds w =
           (None, w\<lparr>files := (files w)(lf \<mapsto> old @ concat (map2 log_entry cmds outs)),
                    events := events w @ concat (map2 command_events cmds outs)\<rparr>)"
  using assms
proof (induction s sent cmds outs arbitrary: w old rule: answers.induct)
  case (1 net_connect sent)
  then show ?case by (simp add: fun_upd_idem)
next
  case (2 net_connect sent cmd cmds out outs)
  define w4 where "w4 = log_write lf (log_entry cmd out)
                (emit (Print out) (emit (SendCommand cmd)
                   (emit (Print (''\<newline>[Running] '' @ cmd)) w)))"
  from 2 have a: "net_connect sent cmd = Inr out" "answers net_connect (sent @ [cmd]) cmds outs"
    by simp_all
  have f4: "files w4 lf = Some (old @ log_entry cmd out)"
    using "2.prems"(2) by (simp add: w4_def)
  have "run_commands net_connect sent lf (cmd # cmds) w
          = run_commands net_connect (sent @ [cmd]) lf cmds w4"
    unfolding w4_def using a(1) by (rule run_commands_step)
  also have "\<dots> = (None, w4\<lparr>files := (files w4)(lf \<mapsto> (old @ log_entry cmd out)
                                      @ concat (map2 log_entry cmds outs)),
                    events := events w4 @ concat (map2 command_events cmds outs)\<rparr>)"
    using a(2) f4 by (rule "2.IH")
  also have "\<dots> = (None, w\<lparr>files := (files w)(lf \<mapsto> old
                                      @ concat (map2 log_entry (cmd # cmds) (out # outs))),
                    events := events w
                              @ concat (map2 command_events (cmd # cmds) (out # outs))\<rparr>)"
    by (simp add: w4_def log_write_def emit_def command_events_def)
  finally show ?case .
qed simp_all

text \<open>The loop when the commands \<open>pre\<close> are answered and the next one raises.\<close>

lemma run_commands_fault:
  assumes "answers s sent pre outs" "s (sent @ pre) c = Inl f" "files w lf = Some old"
  shows "run_commands s sent lf (pre @ c # post) w =
           (Some f, w\<lparr>files := (files w)(lf \<mapsto> old @ concat (map2 log_entry pre outs)),
                      events := events w @ concat (map2 command_events pre outs)
                                @ [Print (''\<newline>[Running] '' @ c), SendCommand c]\<rparr>)"
  using assms
proof (induction s sent pre outs arbitrary: w old rule: answers.induct)
  case (1 net_connect sent)
  then show ?case by (simp add: run_commands_stop fun_upd_idem emit_def)
next
  case (2 net_connect sent cmd cmds out outs)
  define w4 where "w4 = log_write lf (log_entry cmd out)
                (emit (Print out) (emit (SendCommand cmd)
                   (emit (Print (''\<newline>[Running] '' @ cmd)) w)))"
  from 2 have a: "net_connect sent cmd = Inr out" "answers net_connect (sent @ [cmd]) cmds outs"
    "net_connect ((sent @ [cmd]) @ cmds) c = Inl f"
    by simp_all
  have f4: "files w4 lf = Some (old @ log_entry cmd out)"
    using "2.prems"(3) by (simp add: w4_def)
  have "run_commands net_connect sent lf ((cmd # cmds) @ c # post) w
          = run_commands net_connect (sent @ [cmd]) lf (cmds @ c # post) w4"
    unfolding w4_def using a(1) by (simp add: run_commands_step del: run_commands.simps)
  also have "\<dots> = (Some f, w4\<lparr>files := (files w4)(lf \<mapsto> (old @ log_entry cmd out)
                                      @ concat (map2 log_entry cmds outs)),
                    events := events w4 @ concat (map2 command_events cmds outs)
                                @ [Print (''\<newline>[Running] '' @ c), SendCommand c]\<rparr>)"
    using a(2,3) f4 by (rule "2.IH")
  also have "\<dots> = (Some f, w\<lparr>files := (files w)(lf \<mapsto> old
                                      @ concat (map2 log_entry (cmd # cmds) (out # outs))),
                    events := events w
                              @ concat (map2 command_events (cmd # cmds) (out # outs))
                              @ [Print (''\<newline>[Running] '' @ c), SendCommand c]\<rparr>)"
    by (simp add: w4_def log_write_def emit_def command_events_def)
  finally show ?case .
qed simp_all

text \<open>The outputs are as many as the commands.\<close>

lemma answers_length: "answers s sent cmds outs \<Longrightarrow> length outs = length cmds"
  by (induction s sent cmds outs rule: answers.induct) simp_all

text \<open>One of the two happens.\<close>

lemma answers_or_fault:
  "(\<exists>outs. answers s sent cmds outs) \<or>
   (\<exists>pre c post outs f. cmds = pre @ c # post \<and> answers s sent pre outs
                          \<and> s (sent @ pre) c = Inl f)"
proof (induction cmds arbitrary: sent)
  case Nil
  have "answers s sent [] []" by simp
  then show ?case by blast
next
  case (Cons cmd cmds)
  show ?case
  proof (cases "s sent cmd")
    case (Inl f)
    then have "cmd # cmds = [] @ cmd # cmds \<and> answers s sent [] []
                 \<and> s (sent @ []) cmd = Inl f"
      by simp
    then show ?thesis by blast
  next
    case (Inr out)
    from Cons.IH [of "sent @ [cmd]"] show ?thesis
    proof
      assume "\<exists>outs. answers s (sent @ [cmd]) cmds outs"
      then obtain outs where "answers s (sent @ [cmd]) cmds outs" ..
      with Inr have "answers s sent (cmd # cmds) (out # outs)" by simp
      then show ?thesis by blast
    next
      assume "\<exists>pre c post outs f. cmds = pre @ c # post \<and> answers s (sent @ [cmd]) pre outs
                \<and> s ((sent @ [cmd]) @ pre) c = Inl f"
      then obtain pre c post outs f where
        h: "cmds = pre @ c # post" "answers s (sent @ [cmd]) pre outs"
           "s ((sent @ [cmd]) @ pre) c = Inl f" by blast
      with Inr have "cmd # cmds = (cmd # pre) @ c # post
                 \<and> answers s sent (cmd # pre) (out # outs)
                 \<and> s (sent @ (cmd # pre)) c = Inl f" by simp
      then show ?thesis by blast
    qed
  qed
qed

text \<open>\<open>connect_and_run_commands\<close> in its three outcomes.\<close>

lemma carc_connect_fault:
  assumes "C (device_for h u p) = Inl f"
  shows "connect_and_run_commands C now h u p cs d w =
           (False, handle_fault f h u
                     (emit (ConnectHandlerCall (device_for h u p))
                        (emit (Print (''\<newline>Connecting to '' @ h @ ''...'')) w)))"
  using assms by (simp add: connect_and_run_commands_def device_for_def Let_def)

lemma carc_connected:
  assumes "C (device_for h u p) = Inr s"
  shows "connect_and_run_commands C now h u p cs d w =
           (case run_commands s [] (log_file_for d h now) cs
                   (open_w (log_file_for d h now) (emit (MakeDirs d)
                      (emit (ConnectHandlerCall (device_for h u p))
                         (emit (Print (''\<newline>Connecting to '' @ h @ ''...'')) w)))) of
              (Some f, w5) \<Rightarrow> (False, handle_fault f h u w5)
            | (None, w5) \<Rightarrow>
                (True, emit Disconnect (emit (PrintSaved (log_file_for d h now)) w5)))"
  using assms unfolding connect_and_run_commands_def device_for_def log_file_for_def Let_def
  by simp

lemma carc_success:
  assumes "C (device_for h u p) = Inr s" "answers s [] cs outs"
  shows "connect_and_run_commands C now h u p cs d w =
           (True, w\<lparr>files := (files w)(log_file_for d h now
                                         \<mapsto> concat (map2 log_entry cs outs)),
                    events := events w @ session_opening d h u p now
                              @ concat (map2 command_events cs outs)
                              @ [PrintSaved (log_file_for d h now), Disconnect]\<rparr>)"
proof -
  define w4 where "w4 = open_w (log_file_for d h now) (emit (MakeDirs d)
                      (emit (ConnectHandlerCall (device_for h u p))
                         (emit (Print (''\<newline>Connecting to '' @ h @ ''...'')) w)))"
  have f4: "files w4 (log_file_for d h now) = Some []" by (simp add: w4_def)
  have r: "run_commands s [] (log_file_for d h now) cs w4 =
          (None, w4\<lparr>files := (files w4)(log_file_for d h now
                                          \<mapsto> [] @ concat (map2 log_entry cs outs)),
                    events := events w4 @ concat (map2 command_events cs outs)\<rparr>)"
    using assms(2) f4 by (rule run_commands_answers)
  show ?thesis
    unfolding carc_connected [of C h u p s, OF assms(1)] w4_def [symmetric] r
    by (simp add: w4_def emit_def open_w_def session_opening_def)
qed

lemma carc_command_fault:
  assumes "C (device_for h u p) = Inr s" "answers s [] pre outs" "s pre c = Inl f"
  shows "connect_and_run_commands C now h u p (pre @ c # post) d w =
           (False, handle_fault f h u
              (w\<lparr>files := (files w)(log_file_for d h now
                                      \<mapsto> concat (map2 log_entry pre outs)),
                 events := events w @ session_opening d h u p now
                           @ concat (map2 command_events pre outs)
                           @ [Print (''\<newline>[Running] '' @ c), SendCommand c]\<rparr>))"
proof -
  define w4 where "w4 = open_w (log_file_for d h now) (emit (MakeDirs d)
                      (emit (ConnectHandlerCall (device_for h u p))
                         (emit (Print (''\<newline>Connecting to '' @ h @ ''...'')) w)))"
  have f4: "files w4 (log_file_for d h now) = Some []" by (simp add: w4_def)
  from assms(3) have c: "s ([] @ pre) c = Inl f" by simp
  have r: "run_commands s [] (log_file_for d h now) (pre @ c # post) w4 =
          (Some f, w4\<lparr>files := (files w4)(log_file_for d h now
                                            \<mapsto> [] @ concat (map2 log_entry pre outs)),
                    events := events w4 @ concat (map2 command_events pre outs)
                              @ [Print (''\<newline>[Running] '' @ c), SendCommand c]\<rparr>)"
    using assms(2) c f4 by (rule run_commands_fault)
  show ?thesis
    unfolding carc_connected [of C h u p s, OF assms(1)] w4_def [symmetric] r
    by (simp add: w4_def emit_def open_w_def session_opening_def)
qed

lemma no_disconnect_commands: "Disconnect \<notin> set (concat (map2 command_events cs outs))"
  by (auto simp: command_events_def)

lemma no_disconnect_opening: "Disconnect \<notin> set (session_opening d h u p now)"
  by (simp add: session_opening_def)

lemma carc_succeeds_iff:
  "fst (connect_and_run_commands C now h u p cs d w)
     \<longleftrightarrow> (\<exists>s outs. C (device_for h u p) = Inr s \<and> answers s [] cs outs)"
proof (cases "C (device_for h u p)")
  case (Inl f)
  then show ?thesis by (simp add: carc_connect_fault)
next
  case (Inr s)
  from answers_or_fault [of s "[]" cs] show ?thesis
  proof
    assume "\<exists>outs. answers s [] cs outs"
    then obtain outs where "answers s [] cs outs" ..
    with Inr show ?thesis by (auto simp: carc_success)
  next
    assume "\<exists>pre c post outs f. cs = pre @ c # post \<and> answers s [] pre outs
              \<and> s ([] @ pre) c = Inl f"
    then obtain pre c post outs f where
      h: "cs = pre @ c # post" "answers s [] pre outs" "s pre c = Inl f" by auto
    have no: "\<not> answers s [] (pre @ c # post) outs'" for outs'
    proof
      assume a: "answers s [] (pre @ c # post) outs'"
      from Inr a have "connect_and_run_commands C now h u p (pre @ c # post) d w
        = (True, w\<lparr>files := (files w)(log_file_for d h now
                                         \<mapsto> concat (map2 log_entry (pre @ c # post) outs')),
                    events := events w @ session_opening d h u p now
                              @ concat (map2 command_events (pre @ c # post) outs')
                              @ [PrintSaved (log_file_for d h now), Disconnect]\<rparr>)"
        by (rule carc_success)
      moreover from Inr h(2,3) have "fst (connect_and_run_commands C now h u p (pre @ c # post) d w) = False"
        by (simp add: carc_command_fault)
      ultimately show False by simp
    qed
    from Inr h have "\<not> fst (connect_and_run_commands C now h u p cs d w)"
      by (simp add: carc_command_fault)
    with no h(1) Inr show ?thesis by auto
  qed
qed

lemma events_handle_fault:
  "\<exists>m. events (handle_fault f h u w) = events w @ [Print m]"
  by (cases f) (simp_all add: handle_fault_def)

lemma disconnect_iff_success:
  "Disconnect \<in> set (drop (length (events w))
                        (events (snd (connect_and_run_commands C now h u p cs d w))))
     \<longleftrightarrow> fst (connect_and_run_commands C now h u p cs d w)"
proof (cases "C (device_for h u p)")
  case (Inl f)
  obtain m where "events (handle_fault f h u
                     (emit (ConnectHandlerCall (device_for h u p))
                        (emit (Print (''\<newline>Connecting to '' @ h @ ''...'')) w)))
        = events (emit (ConnectHandlerCall (device_for h u p))
                        (emit (Print (''\<newline>Connecting to '' @ h @ ''...'')) w)) @ [Print m]"
    using events_handle_fault by blast
  with Inl show ?thesis by (simp add: carc_connect_fault)
next
  case (Inr s)
  from answers_or_fault [of s "[]" cs] show ?thesis
  proof
    assume "\<exists>outs. answers s [] cs outs"
    then obtain outs where "answers s [] cs outs" ..
    with Inr show ?thesis
      using no_disconnect_commands [of cs outs] no_disconnect_opening [of d h u p now]
      by (simp add: carc_success)
  next
    assume "\<exists>pre c post outs f. cs = pre @ c # post \<and> answers s [] pre outs
              \<and> s ([] @ pre) c = Inl f"
    then obtain pre c post outs f where
      h: "cs = pre @ c # post" "answers s [] pre outs" "s pre c = Inl f" by auto
    define w5 where "w5 = w\<lparr>files := (files w)(log_file_for d h now
                                      \<mapsto> concat (map2 log_entry pre outs)),
                 events := events w @ session_opening d h u p now
                           @ concat (map2 command_events pre outs)
                           @ [Print (''\<newline>[Running] '' @ c), SendCommand c]\<rparr>"
    obtain m where m: "events (handle_fault f h u w5) = events w5 @ [Print m]"
      using events_handle_fault by blast
    have "connect_and_run_commands C now h u p cs d w = (False, handle_fault f h u w5)"
      unfolding h(1) w5_def using Inr h(2,3) by (rule carc_command_fault)
    then show ?thesis
      using m no_disconnect_commands [of pre outs] no_disconnect_opening [of d h u p now]
      by (simp add: w5_def)
  qed
qed

section \<open>Facts about the name of the log file\<close>

lemma validate_ip_no_slash: "validate_ip h \<Longrightarrow> CHR ''/'' \<notin> set h"
  by (auto simp: validate_ip_def ip_address_def IPv4Address_def IPv6Address_def
           split: sum.splits if_splits)

lemma log_file_for_logs:
  assumes "CHR ''/'' \<notin> set h"
  shows "log_file_for ''logs'' h now
           = ''logs/'' @ py_replace (CHR ''.'') (CHR ''_'') h @ ''_'' @ strftime now @ ''.log''"
  using assms by (cases h) (auto simp: log_file_for_def os_path_join_def py_replace_def)

lemma str_nat_digits: "list_all is_digit (str_nat n)"
proof (induction n rule: str_nat.induct)
  case (1 n)
  have d: "is_digit (''0123456789'' ! k)" if "k < 10" for k
  proof -
    from that have "k \<in> {0, 1, 2, 3, 4, 5, 6, 7, 8, 9}" by auto
    then show ?thesis by (auto simp: is_digit_def)
  qed
  show ?case
  proof (cases "n < 10")
    case True
    then show ?thesis by (subst str_nat.simps) (simp add: d)
  next
    case False
    with 1 have "list_all is_digit (str_nat (n div 10))" by simp
    moreover have "is_digit (''0123456789'' ! (n mod 10))" by (rule d) simp
    ultimately show ?thesis using False by (subst str_nat.simps) simp
  qed
qed

lemma length_str_nat_le: "n < 10 ^ Suc k \<Longrightarrow> length (str_nat n) \<le> Suc k"
proof (induction k arbitrary: n)
  case 0
  then show ?case by (subst str_nat.simps) simp
next
  case (Suc k)
  show ?case
  proof (cases "n < 10")
    case True
    then show ?thesis by (subst str_nat.simps) simp
  next
    case False
    from Suc.prems have "n div 10 < 10 ^ Suc k" by (simp add: less_mult_imp_div_less mult.commute)
    then have "length (str_nat (n div 10)) \<le> Suc k" by (rule Suc.IH)
    then show ?thesis using False by (subst str_nat.simps) simp
  qed
qed

lemma length_str_nat_ge: "10 ^ k \<le> n \<Longrightarrow> Suc k \<le> length (str_nat n)"
proof (induction k arbitrary: n)
  case 0
  show ?case by (subst str_nat.simps) simp
next
  case (Suc k)
  from Suc.prems have q: "10 ^ k \<le> n div 10"
    by (simp add: less_eq_div_iff_mult_less_eq mult.commute)
  have n: "\<not> n < 10"
  proof
    assume "n < 10"
    then have "n div 10 = 0" by simp
    with q show False by simp
  qed
  from q have "Suc k \<le> length (str_nat (n div 10))" by (rule Suc.IH)
  then show ?case using n by (subst str_nat.simps) simp
qed

lemma zfill2: "n < 100 \<Longrightarrow> length (zfill 2 (str_nat n)) = 2"
  using length_str_nat_le [of n 1] by (simp add: zfill_def)

lemma zfill4: "1000 \<le> n \<Longrightarrow> n \<le> 9999 \<Longrightarrow> length (zfill 4 (str_nat n)) = 4"
  using length_str_nat_le [of n 3] length_str_nat_ge [of 3 n] by (simp add: zfill_def)

lemma zfill_digits: "list_all is_digit (zfill k (str_nat n))"
proof -
  have "list_all is_digit (replicate m (CHR ''0''))" for m
    by (induction m) (simp_all add: is_digit_def)
  then show ?thesis using str_nat_digits [of n] by (simp add: zfill_def)
qed

lemma strftime_shape:
  assumes "datetime_ok now"
  shows "length (strftime now) = 15 \<and> strftime now ! 8 = CHR ''_''
         \<and> list_all is_digit (take 8 (strftime now))
         \<and> list_all is_digit (drop 9 (strftime now))"
proof -
  define Y where "Y = zfill 4 (str_nat (dt_year now))"
  define M where "M = zfill 2 (str_nat (dt_month now))"
  define D where "D = zfill 2 (str_nat (dt_day now))"
  define H where "H = zfill 2 (str_nat (dt_hour now))"
  define Mi where "Mi = zfill 2 (str_nat (dt_minute now))"
  define S where "S = zfill 2 (str_nat (dt_second now))"
  have s: "strftime now = Y @ M @ D @ ''_'' @ H @ Mi @ S"
    by (simp add: strftime_def Y_def M_def D_def H_def Mi_def S_def)
  from assms have l: "length Y = 4" "length M = 2" "length D = 2" "length H = 2"
    "length Mi = 2" "length S = 2"
    by (simp_all add: datetime_ok_def Y_def M_def D_def H_def Mi_def S_def zfill2 zfill4)
  have d: "list_all is_digit Y" "list_all is_digit M" "list_all is_digit D"
    "list_all is_digit H" "list_all is_digit Mi" "list_all is_digit S"
    by (simp_all add: Y_def M_def D_def H_def Mi_def S_def zfill_digits)
  define P where "P = Y @ M @ D"
  define Q where "Q = H @ Mi @ S"
  have pq: "strftime now = P @ CHR ''_'' # Q" by (simp add: s P_def Q_def)
  have lp: "length P = 8" and lq: "length Q = 6" by (simp_all add: P_def Q_def l)
  have dp: "list_all is_digit P" and dq: "list_all is_digit Q" by (simp_all add: P_def Q_def d)
  have "take 8 (strftime now) = P" "drop 9 (strftime now) = Q"
    "strftime now ! 8 = CHR ''_''" "length (strftime now) = 15"
    by (simp_all add: pq lp lq nth_append)
  then show ?thesis using dp dq by simp
qed


lemma opened_for_writing_append [simp]:
  "opened_for_writing (es @ fs) = opened_for_writing es @ opened_for_writing fs"
  by (induction es rule: opened_for_writing.induct) simp_all

lemma opened_for_writing_commands [simp]:
  "opened_for_writing (concat (map2 command_events cs outs)) = []"
proof (induction cs arbitrary: outs)
  case Nil
  show ?case by simp
next
  case (Cons c cs)
  then show ?case by (cases outs) (simp_all add: command_events_def)
qed


section \<open>Facts about the address check\<close>

lemma py_split_no_sep: "sep \<notin> set s \<Longrightarrow> py_split sep s = [s]"
  by (induction s) auto

lemma validate_ip_needs_separator:
  assumes "CHR ''.'' \<notin> set s" "CHR '':'' \<notin> set s"
  shows "\<not> validate_ip s"
proof -
  have 4: "IPv4Address s = Inl AddressValueError"
    using assms(1) by (simp add: IPv4Address_def ipv4_int_from_string_def py_split_no_sep)
  from assms(2) have "CHR '':'' \<notin> set (takeWhile (\<lambda>c. c \<noteq> CHR ''%'') s)"
    by (auto dest: set_takeWhileD)
  then have "ipv6_int_from_string (takeWhile (\<lambda>c. c \<noteq> CHR ''%'') s) = Inl AddressValueError"
    by (simp add: ipv6_int_from_string_def py_split_no_sep)
  then have 6: "\<exists>e. IPv6Address s = Inl e"
    by (auto simp: IPv6Address_def split_scope_id_def Let_def split: sum.splits prod.splits)
  from 4 6 show ?thesis by (auto simp: validate_ip_def ip_address_def split: sum.splits)
qed

section \<open>Facts about the retry loop\<close>

lemma prompts_of_append [simp]: "prompts_of (es @ fs) = prompts_of es @ prompts_of fs"
  by (induction es rule: prompts_of.induct) simp_all

lemma prompts_of_commands [simp]: "prompts_of (concat (map2 command_events cs outs)) = []"
proof (induction cs arbitrary: outs)
  case Nil
  show ?case by simp
next
  case (Cons c cs)
  then show ?case by (cases outs) (simp_all add: command_events_def)
qed




declare password_attempts.simps(2) [simp del]









text \<open>Dotted decimal: four numbers below 256, printed by \<open>str\<close>, joined by dots.\<close>

lemma digit_val: "d < 10 \<Longrightarrow> decimal_val (''0123456789'' ! d) = d"
proof -
  assume "d < 10"
  then have "d \<in> {0, 1, 2, 3, 4, 5, 6, 7, 8, 9}" by auto
  then show ?thesis by (auto simp: decimal_val_def)
qed

lemma digit_zero: "d < 10 \<Longrightarrow> ''0123456789'' ! d = CHR ''0'' \<Longrightarrow> d = 0"
proof -
  assume "d < 10" and z: "''0123456789'' ! d = CHR ''0''"
  then have "d \<in> {0, 1, 2, 3, 4, 5, 6, 7, 8, 9}" by auto
  with z show ?thesis by auto
qed

lemma str_nat_ne: "str_nat n \<noteq> []"
  by (subst str_nat.simps) simp

lemma int_of_str_nat: "int_of_digits 10 decimal_val (str_nat n) = n"
proof (induction n rule: str_nat.induct)
  case (1 n)
  show ?case
  proof (cases "n < 10")
    case True
    then show ?thesis by (subst str_nat.simps) (simp add: int_of_digits_def digit_val)
  next
    case False
    with 1 have "int_of_digits 10 decimal_val (str_nat (n div 10)) = n div 10" by simp
    then show ?thesis
      using False by (subst str_nat.simps) (simp add: int_of_digits_def digit_val)
  qed
qed

lemma str_nat_no_leading_zero: "0 < n \<Longrightarrow> hd (str_nat n) \<noteq> CHR ''0''"
proof (induction n rule: str_nat.induct)
  case (1 n)
  show ?case
  proof (cases "n < 10")
    case True
    with "1.prems" show ?thesis
      by (subst str_nat.simps) (auto dest: digit_zero)
  next
    case False
    then have "0 < n div 10" by simp
    with 1 False have "hd (str_nat (n div 10)) \<noteq> CHR ''0''" by simp
    then show ?thesis
      using False by (subst str_nat.simps) (simp add: str_nat_ne)
  qed
qed

lemma parse_octet_str_nat:
  assumes "n \<le> 255"
  shows "parse_octet (str_nat n) = Inr n"
proof -
  have d: "list_all (\<lambda>c. c \<in> set ''0123456789'') (str_nat n)"
    using str_nat_digits [of n] by (simp add: is_digit_def [abs_def])
  from assms have l: "length (str_nat n) \<le> 3"
    using length_str_nat_le [of n 2] by simp
  have z: "\<not> (str_nat n \<noteq> ''0'' \<and> take 1 (str_nat n) = ''0'')"
  proof (cases "n = 0")
    case True
    then show ?thesis by (simp add: str_nat.simps)
  next
    case False
    then have "hd (str_nat n) \<noteq> CHR ''0''" by (simp add: str_nat_no_leading_zero)
    then show ?thesis by (cases "str_nat n") simp_all
  qed
  from d l z assms show ?thesis
    by (simp add: parse_octet_def str_nat_ne int_of_str_nat Let_def)
qed

lemma py_split_prefix:
  "sep \<notin> set s \<Longrightarrow> py_split sep (s @ sep # rest) = s # py_split sep rest"
  by (induction s) auto

lemma str_nat_no_sep: "c \<notin> set ''0123456789'' \<Longrightarrow> c \<notin> set (str_nat n)"
  using str_nat_digits [of n] by (auto simp: list_all_iff is_digit_def)

lemma validate_ip_dotted_decimal:
  assumes "a \<le> 255" "b \<le> 255" "c \<le> 255" "d \<le> 255"
  shows "validate_ip (str_nat a @ ''.'' @ str_nat b @ ''.'' @ str_nat c @ ''.'' @ str_nat d)"
proof -
  let ?s = "str_nat a @ ''.'' @ str_nat b @ ''.'' @ str_nat c @ ''.'' @ str_nat d"
  have dot: "CHR ''.'' \<notin> set (str_nat n)" for n by (rule str_nat_no_sep) simp
  have slash: "CHR ''/'' \<notin> set (str_nat n)" for n by (rule str_nat_no_sep) simp
  have "py_split (CHR ''.'') ?s = [str_nat a, str_nat b, str_nat c, str_nat d]"
    using dot by (simp add: py_split_prefix py_split_no_sep)
  then have "ipv4_int_from_string ?s = Inr (foldl (\<lambda>n b. 256 * n + b) 0 [a, b, c, d])"
    using assms by (simp add: ipv4_int_from_string_def parse_octet_str_nat str_nat_ne)
  then have "\<exists>ip. IPv4Address ?s = Inr ip"
    using slash by (simp add: IPv4Address_def)
  then show ?thesis by (auto simp: validate_ip_def ip_address_def)
qed

section \<open>Facts about a run without a batch\<close>

text \<open>
  When \<open>load_commands\<close> returns \<open>None\<close> or the empty list, \<open>main\<close> stops there; and
  \<open>load_commands\<close> only opens the command file and prints.
\<close>

lemma main_without_batch:
  assumes "validate_ip (args_host a)"
    "fst (load_commands a w) = None \<or> fst (load_commands a w) = Some []"
  shows "main e a w = snd (load_commands a w)"
  using assms by (cases "load_commands a w") (auto simp: main_def split: option.splits)

lemma load_commands_events:
  "\<exists>evs. events (snd (load_commands a w)) = events w @ evs
         \<and> (\<forall>e\<in>set evs. (\<exists>p. e = OpenRead p) \<or> (\<exists>m. e = Print m))
         \<and> files (snd (load_commands a w)) = files w"
  by (auto simp: load_commands_def Let_def split: option.splits)

section \<open>Facts about pieces and lines\<close>

text \<open>
  A string is a sequence of pieces, each followed by the separator, and a last piece;
  \<open>split\<close> gives back the pieces.
\<close>

lemma py_split_pieces:
  assumes "\<forall>pc\<in>set (lpc # pcs). sep \<notin> set pc"
  shows "py_split sep (concat (map (\<lambda>pc. pc @ [sep]) pcs) @ lpc) = pcs @ [lpc]"
  using assms
proof (induction pcs)
  case Nil
  then show ?case by (simp add: py_split_no_sep)
next
  case (Cons pc pcs)
  then have "py_split sep (pc @ sep # (concat (map (\<lambda>pc. pc @ [sep]) pcs) @ lpc))
               = pc # (pcs @ [lpc])"
    by (simp add: py_split_prefix)
  then show ?case by simp
qed

text \<open>Universal newlines, and the lines that iterating over the file yields.\<close>

lemma universal_newlines_Cons:
  "c \<noteq> CHR 0x0D \<Longrightarrow> universal_newlines (c # cs) = c # universal_newlines cs"
  by (cases cs) simp_all

lemma universal_newlines_append:
  "CHR 0x0D \<notin> set l \<Longrightarrow> universal_newlines (l @ r) = l @ universal_newlines r"
proof (induction l)
  case Nil
  show ?case by simp
next
  case (Cons c l)
  then have "c \<noteq> CHR 0x0D" by auto
  with Cons show ?case by (simp add: universal_newlines_Cons)
qed

lemma readlines_line:
  "CHR 0x0A \<notin> set l \<Longrightarrow> readlines (l @ CHR 0x0A # r) = (l @ [CHR 0x0A]) # readlines r"
  by (induction l) auto

lemma readlines_last: "CHR 0x0A \<notin> set l \<Longrightarrow> l \<noteq> [] \<Longrightarrow> readlines l = [l]"
proof (induction l)
  case Nil
  then show ?case by simp
next
  case (Cons c cs)
  then show ?case by (cases "cs = []") auto
qed

text \<open>Stripping removes the end of the line with the white space around it.\<close>

lemma py_strip_eol: "py_strip (l @ [CHR 0x0A]) = py_strip l"
proof (cases "\<forall>c\<in>set l. isspace c")
  case True
  have nl: "isspace (CHR 0x0A)" by (simp add: isspace_def)
  from True nl have e1: "dropWhile isspace (l @ [CHR 0x0A]) = []" by simp
  from True have e2: "dropWhile isspace l = []" by simp
  show ?thesis unfolding py_strip_def e1 e2 by simp
next
  case False
  have nl: "isspace (CHR 0x0A)" by (simp add: isspace_def)
  from False obtain c where "c \<in> set l" "\<not> isspace c" by blast
  then have "dropWhile isspace (l @ [CHR 0x0A]) = dropWhile isspace l @ [CHR 0x0A]"
    by (rule dropWhile_append1)
  with nl show ?thesis by (simp add: py_strip_def)
qed

lemma py_strip_Nil: "py_strip [] = []"
  by (simp add: py_strip_def)

lemma py_strip_parts:
  "\<exists>pre post. s = pre @ py_strip s @ post \<and> list_all isspace pre \<and> list_all isspace post"
proof -
  define t where "t = dropWhile isspace s"
  have 1: "s = takeWhile isspace s @ t" by (simp add: t_def)
  have "rev (dropWhile isspace (rev t)) @ rev (takeWhile isspace (rev t))
          = rev (takeWhile isspace (rev t) @ dropWhile isspace (rev t))"
    by (simp only: rev_append)
  also have "\<dots> = rev (rev t)" by (simp only: takeWhile_dropWhile_id)
  finally have "t = rev (dropWhile isspace (rev t)) @ rev (takeWhile isspace (rev t))"
    by simp
  moreover have "py_strip s = rev (dropWhile isspace (rev t))"
    by (simp add: py_strip_def t_def)
  ultimately have 2: "t = py_strip s @ rev (takeWhile isspace (rev t))" by simp
  have 3: "list_all isspace (takeWhile isspace s)"
    by (auto simp: list_all_iff dest: set_takeWhileD)
  have 4: "list_all isspace (rev (takeWhile isspace (rev t)))"
    by (auto simp: list_all_iff dest: set_takeWhileD)
  from 1 2 have "s = takeWhile isspace s @ py_strip s @ rev (takeWhile isspace (rev t))"
    by simp
  with 3 4 show ?thesis by blast
qed

text \<open>
  The commands of a text that starts with a line and its end, and of a last line without
  an end.
\<close>

lemma commands_line:
  assumes "t = [CHR 0x0A] \<or> t = [CHR 0x0D, CHR 0x0A] \<or> t = [CHR 0x0D]"
    "CHR 0x0A \<notin> set l" "CHR 0x0D \<notin> set l"
  shows "filter (\<lambda>c. c \<noteq> []) (map py_strip (readlines (universal_newlines (l @ t @ rest))))
         = filter (\<lambda>c. c \<noteq> []) [py_strip l]
           @ filter (\<lambda>c. c \<noteq> []) (map py_strip (readlines (universal_newlines rest)))"
proof -
  have line: "filter (\<lambda>c. c \<noteq> []) (map py_strip (readlines (l @ CHR 0x0A # u)))
         = filter (\<lambda>c. c \<noteq> []) [py_strip l]
           @ filter (\<lambda>c. c \<noteq> []) (map py_strip (readlines u))" for u
    using assms(2) by (simp add: readlines_line py_strip_eol)
  have 1: "universal_newlines (l @ t @ rest) = l @ universal_newlines (t @ rest)"
    using assms(3) by (rule universal_newlines_append)
  consider (lf) "t = [CHR 0x0A]" | (crlf) "t = [CHR 0x0D, CHR 0x0A]"
    | (cr) "t = [CHR 0x0D]" "rest = [] \<or> hd rest \<noteq> CHR 0x0A"
    | (merged) rest' where "t = [CHR 0x0D]" "rest = CHR 0x0A # rest'"
    using assms(1) by (cases rest) auto
  then show ?thesis
  proof cases
    case lf
    then have "universal_newlines (t @ rest) = CHR 0x0A # universal_newlines rest"
      by (simp add: universal_newlines_Cons)
    then show ?thesis by (simp only: 1 line)
  next
    case crlf
    then have "universal_newlines (t @ rest) = CHR 0x0A # universal_newlines rest" by simp
    then show ?thesis by (simp only: 1 line)
  next
    case cr
    then have "universal_newlines (t @ rest) = CHR 0x0A # universal_newlines rest"
      by (cases rest) simp_all
    then show ?thesis by (simp only: 1 line)
  next
    case merged
    then have "universal_newlines (t @ rest) = CHR 0x0A # universal_newlines rest'" by simp
    then have "filter (\<lambda>c. c \<noteq> [])
                 (map py_strip (readlines (universal_newlines (l @ t @ rest))))
         = filter (\<lambda>c. c \<noteq> []) [py_strip l]
           @ filter (\<lambda>c. c \<noteq> []) (map py_strip (readlines (universal_newlines rest')))"
      by (simp only: 1 line)
    moreover have "universal_newlines rest = CHR 0x0A # universal_newlines rest'"
      using merged(2) by (simp add: universal_newlines_Cons)
    then have "filter (\<lambda>c. c \<noteq> []) (map py_strip (readlines (universal_newlines rest)))
         = filter (\<lambda>c. c \<noteq> []) (map py_strip (readlines (universal_newlines rest')))"
      using py_strip_eol [of "[]"] by (simp add: py_strip_Nil)
    ultimately show ?thesis by simp
  qed
qed

lemma commands_last:
  assumes "CHR 0x0A \<notin> set lst" "CHR 0x0D \<notin> set lst"
  shows "filter (\<lambda>c. c \<noteq> []) (map py_strip (readlines (universal_newlines lst)))
         = filter (\<lambda>c. c \<noteq> []) [py_strip lst]"
proof -
  have "universal_newlines lst = lst"
    using universal_newlines_append [OF assms(2), of "[]"] by simp
  then show ?thesis using assms(1) by (cases "lst = []") (simp_all add: readlines_last py_strip_Nil)
qed

lemma commands_of_lines:
  assumes "length ts = length ls"
    "\<forall>t\<in>set ts. t = [CHR 0x0A] \<or> t = [CHR 0x0D, CHR 0x0A] \<or> t = [CHR 0x0D]"
    "\<forall>l\<in>set (lst # ls). CHR 0x0A \<notin> set l \<and> CHR 0x0D \<notin> set l"
  shows "filter (\<lambda>c. c \<noteq> [])
           (map py_strip (readlines (universal_newlines (concat (map2 (@) ls ts) @ lst))))
         = filter (\<lambda>c. c \<noteq> []) (map py_strip (ls @ [lst]))"
  using assms
proof (induction ls arbitrary: ts)
  case Nil
  then show ?case by (simp add: commands_last)
next
  case (Cons l ls)
  from Cons.prems(1) obtain t ts' where ts: "ts = t # ts'" by (cases ts) auto
  with Cons.prems have t: "t = [CHR 0x0A] \<or> t = [CHR 0x0D, CHR 0x0A] \<or> t = [CHR 0x0D]"
    and l: "CHR 0x0A \<notin> set l" "CHR 0x0D \<notin> set l"
    and IH: "filter (\<lambda>c. c \<noteq> [])
           (map py_strip (readlines (universal_newlines (concat (map2 (@) ls ts') @ lst))))
         = filter (\<lambda>c. c \<noteq> []) (map py_strip (ls @ [lst]))"
    using Cons.IH [of ts'] by simp_all
  have "concat (map2 (@) (l # ls) ts) @ lst = l @ t @ (concat (map2 (@) ls ts') @ lst)"
    by (simp add: ts)
  then show ?case using commands_line [OF t l] IH by simp
qed

section \<open>Facts about what a log can contain\<close>





section \<open>Facts about the texts of addresses\<close>

text \<open>Splitting and joining are inverse to each other.\<close>

lemma py_split_ne: "py_split sep s \<noteq> []"
  by (induction s) (auto split: list.splits)

lemma joined_Cons:
  "pieces \<noteq> [] \<Longrightarrow> joined sep (piece # pieces) = piece @ sep # joined sep pieces"
  by (cases pieces) simp_all

lemma joined_py_split: "joined sep (py_split sep s) = s"
proof (induction s)
  case Nil
  show ?case by simp
next
  case (Cons c cs)
  obtain piece pieces where p: "py_split sep cs = piece # pieces"
    using py_split_ne [of sep cs] by (cases "py_split sep cs") auto
  show ?case
  proof (cases "c = sep")
    case True
    with Cons p show ?thesis by (simp add: joined_Cons)
  next
    case False
    from Cons p have "joined sep (piece # pieces) = cs" by simp
    then show ?thesis using False p by (cases pieces) simp_all
  qed
qed

lemma py_split_joined:
  assumes "\<forall>piece\<in>set pieces. sep \<notin> set piece" "pieces \<noteq> []"
  shows "py_split sep (joined sep pieces) = pieces"
  using assms
proof (induction pieces)
  case Nil
  then show ?case by simp
next
  case (Cons piece pieces)
  show ?case
  proof (cases "pieces = []")
    case True
    with Cons.prems show ?thesis by (simp add: py_split_no_sep)
  next
    case False
    with Cons have "py_split sep (joined sep pieces) = pieces" by simp
    with Cons.prems False show ?thesis by (simp add: joined_Cons py_split_prefix)
  qed
qed

lemma joined_append:
  assumes "xs \<noteq> []" "ys \<noteq> []"
  shows "joined sep (xs @ ys) = joined sep xs @ sep # joined sep ys"
  using assms
proof (induction xs)
  case Nil
  then show ?case by simp
next
  case (Cons x xs)
  show ?case
  proof (cases "xs = []")
    case True
    with Cons.prems show ?thesis by (simp add: joined_Cons)
  next
    case False
    with Cons have "joined sep (xs @ ys) = joined sep xs @ sep # joined sep ys" by simp
    with False show ?thesis by (simp add: joined_Cons)
  qed
qed

text \<open>An octet is parsed exactly when it is the numeral of a number up to 255.\<close>

lemma digit_char:
  assumes "c \<in> set ''0123456789''"
  shows "decimal_val c < 10 \<and> ''0123456789'' ! decimal_val c = c"
  using assms by (auto simp: decimal_val_def)

lemma str_nat_of_digits:
  assumes "t \<noteq> []" "list_all (\<lambda>c. c \<in> set ''0123456789'') t" "t = ''0'' \<or> hd t \<noteq> CHR ''0''"
  shows "str_nat (int_of_digits 10 decimal_val t) = t"
  using assms
proof (induction t rule: rev_induct)
  case Nil
  then show ?case by simp
next
  case (snoc d t)
  from snoc.prems(2) have "d \<in> set ''0123456789''" by simp
  then have d: "decimal_val d < 10" "''0123456789'' ! decimal_val d = d"
    using digit_char [of d] by simp_all
  have v: "int_of_digits 10 decimal_val (t @ [d])
             = 10 * int_of_digits 10 decimal_val t + decimal_val d"
    by (simp add: int_of_digits_def)
  show ?case
  proof (cases "t = []")
    case True
    then show ?thesis using d by (subst str_nat.simps) (simp add: int_of_digits_def)
  next
    case False
    with snoc.prems(3) have h: "hd t \<noteq> CHR ''0''" by (cases t) auto
    with snoc.IH False snoc.prems(2)
    have IH: "str_nat (int_of_digits 10 decimal_val t) = t" by simp
    have pos: "0 < int_of_digits 10 decimal_val t"
    proof (rule ccontr)
      assume "\<not> 0 < int_of_digits 10 decimal_val t"
      then have "int_of_digits 10 decimal_val t = 0" by simp
      with IH have "t = str_nat 0" by simp
      then have "t = ''0''" by (simp add: str_nat.simps)
      with h show False by simp
    qed
    define n where "n = 10 * int_of_digits 10 decimal_val t + decimal_val d"
    have 1: "\<not> n < 10" using pos by (simp add: n_def)
    have 2: "n div 10 = int_of_digits 10 decimal_val t" using d(1) by (simp add: n_def)
    have 3: "n mod 10 = decimal_val d" using d(1) by (simp add: n_def)
    have "str_nat n = t @ [d]" using 1 2 3 IH d(2) by (subst str_nat.simps) simp
    then show ?thesis by (simp add: v n_def)
  qed
qed

lemma parse_octet_iff: "parse_octet t = Inr n \<longleftrightarrow> n \<le> 255 \<and> t = str_nat n"
proof
  assume a: "parse_octet t = Inr n"
  then have 1: "t \<noteq> []" and 2: "list_all (\<lambda>c. c \<in> set ''0123456789'') t"
    and 3: "\<not> (t \<noteq> ''0'' \<and> take 1 t = ''0'')"
    and 4: "n = int_of_digits 10 decimal_val t" and 5: "n \<le> 255"
    by (auto simp: parse_octet_def Let_def split: if_splits)
  from 1 3 have "t = ''0'' \<or> hd t \<noteq> CHR ''0''" by (cases t) auto
  with 1 2 have "str_nat (int_of_digits 10 decimal_val t) = t" by (rule str_nat_of_digits)
  with 4 5 show "n \<le> 255 \<and> t = str_nat n" by simp
next
  assume "n \<le> 255 \<and> t = str_nat n"
  then show "parse_octet t = Inr n" by (simp add: parse_octet_str_nat)
qed

lemma parse_all_ok:
  "(\<exists>ns. parse_all f ps = Inr ns) \<longleftrightarrow> list_all (\<lambda>p. \<exists>n. f p = Inr n) ps"
  by (induction ps) (auto split: sum.splits)

text \<open>\<open>IPv4Address\<close> parses exactly the dotted quads.\<close>

lemma IPv4Address_iff: "(\<exists>n. IPv4Address t = Inr n) \<longleftrightarrow> dotted_quad t"
proof
  assume "\<exists>n. IPv4Address t = Inr n"
  then obtain n where "IPv4Address t = Inr n" ..
  then have l: "length (py_split (CHR ''.'') t) = 4"
    and pa: "\<exists>bs. parse_all parse_octet (py_split (CHR ''.'') t) = Inr bs"
    by (auto simp: IPv4Address_def ipv4_int_from_string_def Let_def
             split: if_splits sum.splits)
  from l obtain o1 o2 o3 o4 where o: "py_split (CHR ''.'') t = [o1, o2, o3, o4]"
    by (auto simp: length_Suc_conv eval_nat_numeral)
  from pa have "list_all (\<lambda>p. \<exists>n. parse_octet p = Inr n) (py_split (CHR ''.'') t)"
    by (simp only: parse_all_ok)
  with o obtain a b c d where
    "parse_octet o1 = Inr a" "parse_octet o2 = Inr b" "parse_octet o3 = Inr c"
    "parse_octet o4 = Inr d"
    by auto
  then have q: "a \<le> 255" "b \<le> 255" "c \<le> 255" "d \<le> 255"
    "o1 = str_nat a" "o2 = str_nat b" "o3 = str_nat c" "o4 = str_nat d"
    by (simp_all add: parse_octet_iff)
  have "t = joined (CHR ''.'') (py_split (CHR ''.'') t)" by (simp add: joined_py_split)
  then have "t = joined (CHR ''.'') [str_nat a, str_nat b, str_nat c, str_nat d]"
    by (simp only: o q)
  with q(1-4) show "dotted_quad t" unfolding dotted_quad_def by blast
next
  assume "dotted_quad t"
  then obtain a b c d where q: "a \<le> 255" "b \<le> 255" "c \<le> 255" "d \<le> 255"
    and t: "t = joined (CHR ''.'') [str_nat a, str_nat b, str_nat c, str_nat d]"
    unfolding dotted_quad_def by blast
  have dot: "CHR ''.'' \<notin> set (str_nat n)" for n by (rule str_nat_no_sep) simp
  have slash: "CHR ''/'' \<notin> set (str_nat n)" for n by (rule str_nat_no_sep) simp
  have "py_split (CHR ''.'') t = [str_nat a, str_nat b, str_nat c, str_nat d]"
    unfolding t using dot by (intro py_split_joined) simp_all
  then have "ipv4_int_from_string t = Inr (foldl (\<lambda>n b. 256 * n + b) 0 [a, b, c, d])"
    using q by (simp add: ipv4_int_from_string_def parse_octet_str_nat str_nat_ne t)
  then show "\<exists>n. IPv4Address t = Inr n"
    using slash by (simp add: IPv4Address_def t)
qed

text \<open>Hextets: what \<open>parse_hextet\<close> accepts and what \<open>'%x'\<close> prints.\<close>

lemma parse_hextet_ok: "(\<exists>n. parse_hextet t = Inr n) \<longleftrightarrow> hextet t"
  by (cases t) (auto simp: parse_hextet_def hextet_def)

lemma hex_str_digits: "list_all (\<lambda>c. c \<in> set ''0123456789ABCDEFabcdef'') (hex_str n)"
proof (induction n rule: hex_str.induct)
  case (1 n)
  have d: "''0123456789abcdef'' ! k \<in> set ''0123456789ABCDEFabcdef''" if "k < 16" for k
  proof -
    from that have "k = 0 \<or> k = 1 \<or> k = 2 \<or> k = 3 \<or> k = 4 \<or> k = 5 \<or> k = 6 \<or> k = 7
        \<or> k = 8 \<or> k = 9 \<or> k = 10 \<or> k = 11 \<or> k = 12 \<or> k = 13 \<or> k = 14 \<or> k = 15"
      by arith
    then show ?thesis by auto
  qed
  show ?case
  proof (cases "n < 16")
    case True
    then have "''0123456789abcdef'' ! n \<in> set ''0123456789ABCDEFabcdef''" by (rule d)
    then show ?thesis using True by (subst hex_str.simps) simp
  next
    case False
    with 1 have "list_all (\<lambda>c. c \<in> set ''0123456789ABCDEFabcdef'') (hex_str (n div 16))"
      by simp
    moreover have "''0123456789abcdef'' ! (n mod 16) \<in> set ''0123456789ABCDEFabcdef''"
      by (rule d) simp
    ultimately show ?thesis using False by (subst hex_str.simps) simp
  qed
qed

lemma length_hex_str_le: "n < 16 ^ Suc k \<Longrightarrow> length (hex_str n) \<le> Suc k"
proof (induction k arbitrary: n)
  case 0
  then show ?case by (subst hex_str.simps) simp
next
  case (Suc k)
  show ?case
  proof (cases "n < 16")
    case True
    then show ?thesis by (subst hex_str.simps) simp
  next
    case False
    from Suc.prems have "n div 16 < 16 ^ Suc k"
      by (simp add: less_mult_imp_div_less mult.commute)
    then have "length (hex_str (n div 16)) \<le> Suc k" by (rule Suc.IH)
    then show ?thesis using False by (subst hex_str.simps) simp
  qed
qed

lemma hex_str_hextet:
  assumes "n < 65536"
  shows "hextet (hex_str n)"
proof -
  from assms have "n < 16 ^ Suc 3" by simp
  then have "length (hex_str n) \<le> Suc 3" by (rule length_hex_str_le)
  moreover have "hex_str n \<noteq> []" by (subst hex_str.simps) simp
  ultimately show ?thesis using hex_str_digits [of n]
    by (cases "hex_str n") (simp_all add: hextet_def)
qed

text \<open>The search for the part that stands for \<open>::\<close>.\<close>

lemma find_skip_none: "\<forall>j\<in>set js. ps ! j \<noteq> [] \<Longrightarrow> find_skip ps js sk = Inr sk"
  by (induction js arbitrary: sk) simp_all

lemma find_skip_one:
  assumes "ps ! i = []" "\<forall>j\<in>set js. ps ! j \<noteq> []" "\<forall>j\<in>set ks. ps ! j \<noteq> []"
  shows "find_skip ps (js @ i # ks) None = Inr (Some i)"
  using assms(2) by (induction js) (simp_all add: assms(1) find_skip_none [OF assms(3)])

lemma find_skip_Some:
  "find_skip ps js sk = Inr (Some i) \<Longrightarrow> sk = Some i \<or> (i \<in> set js \<and> ps ! i = [])"
  by (induction js arbitrary: sk) (auto split: if_splits)

lemma hextet_ne: "hextet h \<Longrightarrow> h \<noteq> []"
  by (auto simp: hextet_def)

lemma parse_all_hextet:
  "(\<exists>ns. parse_all parse_hextet ps = Inr ns) \<longleftrightarrow> list_all hextet ps"
  by (simp add: parse_all_ok parse_hextet_ok)

text \<open>\<open>_ip_int_from_string\<close> succeeds exactly when all its checks pass.\<close>

lemma ipv6_int_from_string_ok:
  "(\<exists>n. ipv6_int_from_string t = Inr n) \<longleftrightarrow>
     t \<noteq> [] \<and> 3 \<le> length (py_split (CHR '':'') t)
     \<and> (if CHR ''.'' \<in> set (last (py_split (CHR '':'') t))
         then \<exists>v. IPv4Address (last (py_split (CHR '':'') t)) = Inr v
                \<and> parts_accepted (butlast (py_split (CHR '':'') t)
                                    @ [hex_str (v div 65536 mod 65536), hex_str (v mod 65536)])
         else parts_accepted (py_split (CHR '':'') t))"
proof -
  have tail: "(\<exists>n. (if length ps > 9 then Inl AddressValueError
                else
                  (case find_skip ps [1..<length ps - 1] None of
                     Inl e \<Rightarrow> Inl e
                   | Inr skip_index \<Rightarrow>
                       (case count_parts ps skip_index of
                          Inl e \<Rightarrow> Inl e
                        | Inr (parts_hi, parts_lo, parts_skipped) \<Rightarrow>
                            (case parse_all parse_hextet (take (nat parts_hi) ps) of
                               Inl e \<Rightarrow> Inl AddressValueError
                             | Inr his \<Rightarrow>
                                 (case parse_all parse_hextet
                                         (drop (length ps - nat parts_lo) ps) of
                                    Inl e \<Rightarrow> Inl AddressValueError
                                  | Inr los \<Rightarrow>
                                      Inr (foldl (\<lambda>n h. 65536 * n + h)
                                             (foldl (\<lambda>n h. 65536 * n + h) 0 his
                                                * 65536 ^ nat parts_skipped)
                                             los)))))) = Inr n)
              \<longleftrightarrow> parts_accepted ps" for ps
    unfolding parts_accepted_def parse_all_hextet [symmetric]
    by (auto split: sum.splits prod.splits)
  show ?thesis
    unfolding ipv6_int_from_string_def Let_def
    by (auto simp: tail split: sum.splits)
qed

text \<open>The parts that pass the checks are those of the two written forms.\<close>

lemma parts_accepted_full:
  assumes "length ps = 8" "list_all hextet ps"
  shows "parts_accepted ps"
proof -
  from assms(2) have ne: "\<forall>p\<in>set ps. p \<noteq> []" by (auto simp: list_all_iff hextet_ne)
  with assms(1) have "\<forall>j\<in>set [1..<length ps - 1]. ps ! j \<noteq> []" by simp
  then have 1: "find_skip ps [1..<length ps - 1] None = Inr None" by (rule find_skip_none)
  from assms(1) have "ps \<noteq> []" by auto
  with ne have "hd ps \<noteq> []" "last ps \<noteq> []" by simp_all
  with assms(1) have 2: "count_parts ps None = Inr (8, 0, 0)" by (simp add: count_parts_def)
  from assms have 3: "list_all hextet (take (nat 8) ps)"
    "list_all hextet (drop (length ps - nat 0) ps)" by simp_all
  from 1 2 3 have "find_skip ps [1..<length ps - 1] None = Inr None
      \<and> count_parts ps None = Inr (8, 0, 0)
      \<and> list_all hextet (take (nat 8) ps)
      \<and> list_all hextet (drop (length ps - nat 0) ps)"
    by (intro conjI)
  then have "\<exists>skip_index parts_hi parts_lo parts_skipped.
            find_skip ps [1..<length ps - 1] None = Inr skip_index
            \<and> count_parts ps skip_index = Inr (parts_hi, parts_lo, parts_skipped)
            \<and> list_all hextet (take (nat parts_hi) ps)
            \<and> list_all hextet (drop (length ps - nat parts_lo) ps)"
    by blast
  with assms(1) show ?thesis unfolding parts_accepted_def by simp
qed

lemma parts_accepted_compressed:
  assumes "list_all hextet hi" "list_all hextet lo" "length hi + length lo \<le> 7"
  shows "parts_accepted ((if hi = [] then [[]] else hi) @ [[]] @ (if lo = [] then [[]] else lo))"
proof -
  define H where "H = (if hi = [] then [[]] else hi)"
  define L where "L = (if lo = [] then [[]] else lo)"
  define ps where "ps = H @ [[]] @ L"
  define i where "i = length H"
  have H: "H \<noteq> []" "length H = (if hi = [] then 1 else length hi)" by (simp_all add: H_def)
  have L: "L \<noteq> []" "length L = (if lo = [] then 1 else length lo)" by (simp_all add: L_def)
  have len: "length ps = i + 1 + length L" by (simp add: ps_def i_def)
  from assms(3) H(2) L(2) have le9: "length ps \<le> 9" by (auto simp: len i_def split: if_splits)
  have i1: "1 \<le> i" using H(1) by (cases H) (simp_all add: i_def)
  have psi: "ps ! i = []" by (simp add: ps_def i_def nth_append)
  have before: "\<forall>j\<in>set [1..<i]. ps ! j \<noteq> []"
  proof
    fix j assume "j \<in> set [1..<i]"
    then have j: "1 \<le> j" "j < length H" by (simp_all add: i_def)
    with H(2) have "hi \<noteq> []" by (auto split: if_splits)
    with j have "ps ! j = hi ! j" "j < length hi" by (simp_all add: ps_def H_def nth_append)
    with assms(1) show "ps ! j \<noteq> []" by (auto simp: list_all_length hextet_ne)
  qed
  have after: "\<forall>j\<in>set [Suc i..<length ps - 1]. ps ! j \<noteq> []"
  proof
    fix j assume "j \<in> set [Suc i..<length ps - 1]"
    then have j: "Suc i \<le> j" "j - Suc i < length L - 1" by (auto simp: len)
    with L(2) have "lo \<noteq> []" by (auto split: if_splits)
    with j have "ps ! j = lo ! (j - Suc i)" "j - Suc i < length lo"
      by (simp_all add: ps_def L_def i_def nth_append)
    with assms(2) show "ps ! j \<noteq> []" by (auto simp: list_all_length hextet_ne)
  qed
  have "[1..<length ps - 1] = [1..<i] @ i # [Suc i..<length ps - 1]"
  proof -
    have "i < length ps - 1" using L(1) by (cases L) (simp_all add: len)
    with i1 have "[1..<length ps - 1] = [1..<i] @ [i..<length ps - 1]"
      by (metis less_imp_le_nat upt_add_eq_append le_Suc_ex)
    with \<open>i < length ps - 1\<close> show ?thesis by (simp add: upt_conv_Cons)
  qed
  with psi before after have 1: "find_skip ps [1..<length ps - 1] None = Inr (Some i)"
    by (simp add: find_skip_one)
  have hd: "hd ps = [] \<longleftrightarrow> hi = []"
    using assms(1) by (cases hi) (simp_all add: ps_def H_def hextet_ne)
  have last: "last ps = [] \<longleftrightarrow> lo = []"
    using assms(2) by (cases lo rule: rev_cases) (simp_all add: ps_def L_def hextet_ne)
  have 2: "count_parts ps (Some i)
             = Inr (int (length hi), int (length lo), 8 - (int (length hi) + int (length lo)))"
    using assms(3) hd last H(2) L(2)
    by (auto simp: count_parts_def Let_def len i_def)
  have 3: "list_all hextet (take (nat (int (length hi))) ps)"
    using assms(1) by (simp add: ps_def H_def)
  have "drop (length ps - length lo) ps = (if lo = [] then [] else lo)"
    by (simp add: ps_def L_def H_def)
  with assms(2) have 4: "list_all hextet (drop (length ps - nat (int (length lo))) ps)"
    by simp
  from 1 2 3 4 have "find_skip ps [1..<length ps - 1] None = Inr (Some i)
      \<and> count_parts ps (Some i)
          = Inr (int (length hi), int (length lo), 8 - (int (length hi) + int (length lo)))
      \<and> list_all hextet (take (nat (int (length hi))) ps)
      \<and> list_all hextet (drop (length ps - nat (int (length lo))) ps)"
    by (intro conjI)
  then have "\<exists>skip_index parts_hi parts_lo parts_skipped.
            find_skip ps [1..<length ps - 1] None = Inr skip_index
            \<and> count_parts ps skip_index = Inr (parts_hi, parts_lo, parts_skipped)
            \<and> list_all hextet (take (nat parts_hi) ps)
            \<and> list_all hextet (drop (length ps - nat parts_lo) ps)"
    by blast
  with le9 have "parts_accepted ps" unfolding parts_accepted_def by simp
  then show ?thesis by (simp add: ps_def H_def L_def)
qed

lemma parts_accepted_forms:
  assumes "parts_accepted ps"
  shows "length ps = 8 \<and> list_all hextet ps
         \<or> (\<exists>hi lo. list_all hextet hi \<and> list_all hextet lo \<and> length hi + length lo \<le> 7
               \<and> ps = (if hi = [] then [[]] else hi) @ [[]]
                        @ (if lo = [] then [[]] else lo))"
proof -
  from assms obtain sk phi plo psk where
    f: "find_skip ps [1..<length ps - 1] None = Inr sk"
    and c: "count_parts ps sk = Inr (phi, plo, psk)"
    and h: "list_all hextet (take (nat phi) ps)"
    and l: "list_all hextet (drop (length ps - nat plo) ps)"
    unfolding parts_accepted_def by blast
  show ?thesis
  proof (cases sk)
    case None
    with c have "length ps = 8" "phi = 8"
      by (auto simp: count_parts_def split: if_splits)
    with h show ?thesis by simp
  next
    case (Some i)
    with f have "i \<in> set [1..<length ps - 1] \<and> ps ! i = []"
      using find_skip_Some [of ps "[1..<length ps - 1]" None i] by simp
    then have i: "1 \<le> i" "Suc i < length ps" "ps ! i = []" by auto
    then have ps: "ps = take i ps @ [[]] @ drop (Suc i) ps"
      using id_take_nth_drop [of i ps] by simp
    from c Some have sk: "0 < psk" "psk = 8 - (phi + plo)"
      by (auto simp: count_parts_def Let_def split: if_splits)
    have hiP: "\<exists>hi. list_all hextet hi \<and> take i ps = (if hi = [] then [[]] else hi)
                  \<and> int (length hi) = phi"
    proof (cases "hd ps = []")
      case True
      with c Some have "phi = int i - 1" "phi = 0"
        by (auto simp: count_parts_def Let_def split: if_splits)
      with i have "i = 1" by simp
      with i True have "take i ps = [[]]" by (cases ps) simp_all
      with \<open>phi = 0\<close> have "list_all hextet [] \<and> take i ps = (if [] = [] then [[]] else [])
                  \<and> int (length ([] :: string list)) = phi" by simp
      then show ?thesis by blast
    next
      case False
      with c Some have "phi = int i"
        by (auto simp: count_parts_def Let_def split: if_splits)
      moreover from i have "take i ps \<noteq> []" by (cases ps) auto
      moreover from i have "length (take i ps) = i" by simp
      ultimately have "list_all hextet (take i ps)
                  \<and> take i ps = (if take i ps = [] then [[]] else take i ps)
                  \<and> int (length (take i ps)) = phi" using h by simp
      then show ?thesis by blast
    qed
    have loP: "\<exists>lo. list_all hextet lo \<and> drop (Suc i) ps = (if lo = [] then [[]] else lo)
                  \<and> int (length lo) = plo"
    proof (cases "last ps = []")
      case True
      with c Some have "plo = int (length ps) - int i - 1 - 1" "plo = 0"
        by (auto simp: count_parts_def Let_def split: if_splits)
      with i have n: "length ps = Suc (Suc i)" by simp
      then have "length (drop (Suc i) ps) = 1" by simp
      then obtain x where x: "drop (Suc i) ps = [x]"
        by (cases "drop (Suc i) ps") (auto simp del: length_drop drop_eq_Nil)
      from n have "last ps = last (drop (Suc i) ps)" by simp
      with x True have "drop (Suc i) ps = [[]]" by simp
      with \<open>plo = 0\<close> have "list_all hextet []
                  \<and> drop (Suc i) ps = (if [] = [] then [[]] else [])
                  \<and> int (length ([] :: string list)) = plo" by simp
      then show ?thesis by blast
    next
      case False
      with c Some have p: "plo = int (length ps) - int i - 1"
        by (auto simp: count_parts_def Let_def split: if_splits)
      with i have "length ps - nat plo = Suc i" by auto
      with l have "list_all hextet (drop (Suc i) ps)" by simp
      moreover from i have "drop (Suc i) ps \<noteq> []" by simp
      moreover from i p have "int (length (drop (Suc i) ps)) = plo" by auto
      ultimately have "list_all hextet (drop (Suc i) ps)
                  \<and> drop (Suc i) ps = (if drop (Suc i) ps = [] then [[]] else drop (Suc i) ps)
                  \<and> int (length (drop (Suc i) ps)) = plo" by simp
      then show ?thesis by blast
    qed
    from hiP obtain hi where hi: "list_all hextet hi"
      "take i ps = (if hi = [] then [[]] else hi)" "int (length hi) = phi" by blast
    from loP obtain lo where lo: "list_all hextet lo"
      "drop (Suc i) ps = (if lo = [] then [[]] else lo)" "int (length lo) = plo" by blast
    from sk hi(3) lo(3) have "length hi + length lo \<le> 7" by simp
    moreover from ps hi(2) lo(2)
    have "ps = (if hi = [] then [[]] else hi) @ [[]] @ (if lo = [] then [[]] else lo)"
      by simp
    ultimately show ?thesis using hi(1) lo(1) by blast
  qed
qed

text \<open>The characters of the written forms.\<close>

lemma hextet_no:
  "hextet h \<Longrightarrow> c \<notin> set ''0123456789ABCDEFabcdef'' \<Longrightarrow> c \<notin> set h"
  unfolding hextet_def list_all_iff by blast

lemma dotted_quad_no:
  assumes "dotted_quad q" "c \<notin> set ''0123456789''" "c \<noteq> CHR ''.''"
  shows "c \<notin> set q"
proof -
  from assms(1) obtain n1 n2 n3 n4 where
    q: "q = joined (CHR ''.'') [str_nat n1, str_nat n2, str_nat n3, str_nat n4]"
    unfolding dotted_quad_def by blast
  have "c \<notin> set (str_nat n)" for n using assms(2) by (rule str_nat_no_sep)
  with assms(3) show ?thesis unfolding q by simp
qed

lemma dotted_quad_dot: "dotted_quad q \<Longrightarrow> CHR ''.'' \<in> set q"
  unfolding dotted_quad_def by auto

lemma groups_no:
  assumes "groups n gs" "g \<in> set gs" "c \<notin> set ''0123456789ABCDEFabcdef''" "c \<noteq> CHR ''.''"
  shows "c \<notin> set g"
proof -
  have "hextet g \<or> dotted_quad g"
  proof (cases "list_all hextet gs")
    case True
    with assms(2) show ?thesis unfolding list_all_iff by blast
  next
    case False
    with assms(1) have gs: "gs \<noteq> []" "list_all hextet (butlast gs)" "dotted_quad (last gs)"
      unfolding groups_def by blast+
    from gs(1) have "gs = butlast gs @ [last gs]" by simp
    then have "set gs = set (butlast gs) \<union> {last gs}"
      by (metis set_append list.simps(15) empty_set)
    with assms(2) have "g \<in> set (butlast gs) \<or> g = last gs" by blast
    with gs(2,3) show ?thesis unfolding list_all_iff by blast
  qed
  moreover have "c \<notin> set ''0123456789''" using assms(3) by simp
  ultimately show ?thesis using hextet_no [OF _ assms(3)] dotted_quad_no [OF _ _ assms(4)]
    by blast
qed

text \<open>The text around \<open>::\<close> and its parts.\<close>

lemma joined_compressed:
  "joined sep ((if hi = [] then [[]] else hi) @ [[]] @ (if lo = [] then [[]] else lo))
     = joined sep hi @ [sep, sep] @ joined sep lo"
proof -
  have a: "joined sep (if xs = [] then [[]] else xs) = joined sep xs" for xs by simp
  have "joined sep ((if hi = [] then [[]] else hi) @ ([[]] @ (if lo = [] then [[]] else lo)))
          = joined sep (if hi = [] then [[]] else hi)
            @ sep # joined sep ([[]] @ (if lo = [] then [[]] else lo))"
    by (rule joined_append) simp_all
  moreover have "joined sep ([[]] @ (if lo = [] then [[]] else lo))
          = joined sep [[]] @ sep # joined sep (if lo = [] then [[]] else lo)"
    by (rule joined_append) simp_all
  ultimately show ?thesis by (simp add: a)
qed

lemma snoc_two:
  assumes "X @ [a, b] = Y @ [[]] @ L" "a \<noteq> []" "b \<noteq> []"
  shows "\<exists>L0. L = L0 @ [a, b] \<and> X = Y @ [[]] @ L0"
proof (cases L rule: rev_cases)
  case Nil
  with assms(1) have "X @ [a, b] = Y @ [[]]" by simp
  then have "last (X @ [a, b]) = last (Y @ [[]])" by simp
  with assms(3) show ?thesis by simp
next
  case outer: (snoc L1 l)
  with assms(1) have "(X @ [a]) @ [b] = (Y @ [[]] @ L1) @ [l]" by simp
  then have e: "X @ [a] = Y @ [[]] @ L1" "b = l" by (simp_all only: append1_eq_conv)
  show ?thesis
  proof (cases L1 rule: rev_cases)
    case Nil
    with e(1) have "X @ [a] = Y @ [[]]" by simp
    then have "a = []" by simp
    with assms(2) show ?thesis by simp
  next
    case inner: (snoc L0 l')
    with e(1) have "X @ [a] = (Y @ [[]] @ L0) @ [l']" by simp
    then have "X = Y @ [[]] @ L0" "a = l'" by (simp_all only: append1_eq_conv)
    with e(2) outer inner show ?thesis by simp
  qed
qed

text \<open>
  The checks on the parts of an address, with the dotted quad that may end it, pass exactly
  on the parts of the two written forms.
\<close>

lemma parts_checked_iff:
  assumes "parts \<noteq> []"
  shows "(if CHR ''.'' \<in> set (last parts)
          then \<exists>v. IPv4Address (last parts) = Inr v
                \<and> parts_accepted (butlast parts
                                    @ [hex_str (v div 65536 mod 65536), hex_str (v mod 65536)])
          else parts_accepted parts)
         \<longleftrightarrow> groups 8 parts
             \<or> (\<exists>hi lo n. list_all hextet hi \<and> groups n lo \<and> length hi + n \<le> 7
                   \<and> parts = (if hi = [] then [[]] else hi) @ [[]]
                               @ (if lo = [] then [[]] else lo))"
    (is "?L \<longleftrightarrow> ?F \<or> ?C")
proof
  assume L: ?L
  show "?F \<or> ?C"
  proof (cases "CHR ''.'' \<in> set (last parts)")
    case False
    with L have "parts_accepted parts" by simp
    then have "length parts = 8 \<and> list_all hextet parts
         \<or> (\<exists>hi lo. list_all hextet hi \<and> list_all hextet lo \<and> length hi + length lo \<le> 7
               \<and> parts = (if hi = [] then [[]] else hi) @ [[]]
                           @ (if lo = [] then [[]] else lo))"
      by (rule parts_accepted_forms)
    then show ?thesis
    proof
      assume "length parts = 8 \<and> list_all hextet parts"
      then have ?F by (simp add: groups_def)
      then show ?thesis ..
    next
      assume "\<exists>hi lo. list_all hextet hi \<and> list_all hextet lo \<and> length hi + length lo \<le> 7
               \<and> parts = (if hi = [] then [[]] else hi) @ [[]]
                           @ (if lo = [] then [[]] else lo)"
      then obtain hi lo where "list_all hextet hi" "list_all hextet lo"
        "length hi + length lo \<le> 7"
        "parts = (if hi = [] then [[]] else hi) @ [[]] @ (if lo = [] then [[]] else lo)"
        by blast
      then have "list_all hextet hi \<and> groups (length lo) lo \<and> length hi + length lo \<le> 7
                   \<and> parts = (if hi = [] then [[]] else hi) @ [[]]
                               @ (if lo = [] then [[]] else lo)"
        by (simp add: groups_def)
      then have ?C by blast
      then show ?thesis ..
    qed
  next
    case True
    with L obtain v where v: "IPv4Address (last parts) = Inr v"
      and acc: "parts_accepted (butlast parts
                  @ [hex_str (v div 65536 mod 65536), hex_str (v mod 65536)])"
      by auto
    define ha where "ha = hex_str (v div 65536 mod 65536)"
    define hb where "hb = hex_str (v mod 65536)"
    have h: "hextet ha" "hextet hb" by (simp_all add: ha_def hb_def hex_str_hextet)
    from v have q: "dotted_quad (last parts)" using IPv4Address_iff [of "last parts"] by blast
    from assms have parts: "parts = butlast parts @ [last parts]" by simp
    from acc have "length (butlast parts @ [ha, hb]) = 8
                     \<and> list_all hextet (butlast parts @ [ha, hb])
         \<or> (\<exists>hi lo. list_all hextet hi \<and> list_all hextet lo \<and> length hi + length lo \<le> 7
               \<and> butlast parts @ [ha, hb] = (if hi = [] then [[]] else hi) @ [[]]
                           @ (if lo = [] then [[]] else lo))"
      unfolding ha_def hb_def by (rule parts_accepted_forms)
    then show ?thesis
    proof
      assume "length (butlast parts @ [ha, hb]) = 8
                \<and> list_all hextet (butlast parts @ [ha, hb])"
      with assms q have ?F by (simp add: groups_def)
      then show ?thesis ..
    next
      assume "\<exists>hi lo. list_all hextet hi \<and> list_all hextet lo \<and> length hi + length lo \<le> 7
               \<and> butlast parts @ [ha, hb] = (if hi = [] then [[]] else hi) @ [[]]
                           @ (if lo = [] then [[]] else lo)"
      then obtain hi lo where hl: "list_all hextet hi" "list_all hextet lo"
        "length hi + length lo \<le> 7"
        "butlast parts @ [ha, hb] = (if hi = [] then [[]] else hi) @ [[]]
                           @ (if lo = [] then [[]] else lo)"
        by blast
      from hl(4) h have "\<exists>L0. (if lo = [] then [[]] else lo) = L0 @ [ha, hb]
                           \<and> butlast parts = (if hi = [] then [[]] else hi) @ [[]] @ L0"
        by (intro snoc_two) (simp_all add: hextet_ne)
      then obtain L0 where L0: "(if lo = [] then [[]] else lo) = L0 @ [ha, hb]"
        "butlast parts = (if hi = [] then [[]] else hi) @ [[]] @ L0"
        by blast
      from L0(1) have lo: "lo = L0 @ [ha, hb]" by (auto split: if_splits)
      with hl(2) have "list_all hextet L0" by simp
      with q have g: "groups (length L0 + 2) (L0 @ [last parts])" by (simp add: groups_def)
      from parts L0(2) have "parts = (if hi = [] then [[]] else hi) @ [[]]
                               @ (if L0 @ [last parts] = [] then [[]] else L0 @ [last parts])"
        by simp
      moreover from hl(3) lo have "length hi + (length L0 + 2) \<le> 7" by simp
      ultimately have ?C using hl(1) g by blast
      then show ?thesis ..
    qed
  qed
next
  assume "?F \<or> ?C"
  then show ?L
  proof
    assume ?F
    show ?L
    proof (cases "list_all hextet parts \<and> length parts = 8")
      case True
      with assms have "hextet (last parts)" by (simp add: list_all_iff)
      then have "CHR ''.'' \<notin> set (last parts)" by (rule hextet_no) simp
      moreover from True have "parts_accepted parts" by (simp add: parts_accepted_full)
      ultimately show ?thesis by simp
    next
      case False
      with \<open>?F\<close> have g: "list_all hextet (butlast parts)" "dotted_quad (last parts)"
        "length parts = 7"
        by (auto simp: groups_def)
      from g(2) obtain v where v: "IPv4Address (last parts) = Inr v"
        using IPv4Address_iff [of "last parts"] by blast
      have "parts_accepted (butlast parts
              @ [hex_str (v div 65536 mod 65536), hex_str (v mod 65536)])"
        using g(1,3) by (intro parts_accepted_full) (simp_all add: hex_str_hextet)
      with v dotted_quad_dot [OF g(2)] show ?thesis by auto
    qed
  next
    assume ?C
    then obtain hi lo n where c: "list_all hextet hi" "groups n lo" "length hi + n \<le> 7"
      "parts = (if hi = [] then [[]] else hi) @ [[]] @ (if lo = [] then [[]] else lo)"
      by blast
    show ?L
    proof (cases "list_all hextet lo \<and> length lo = n")
      case True
      have "CHR ''.'' \<notin> set (last parts)"
      proof (cases "lo = []")
        case True
        with c(4) show ?thesis by simp
      next
        case False
        with True c(4) have "hextet (last parts)" by (simp add: list_all_iff)
        then show ?thesis by (rule hextet_no) simp
      qed
      moreover have "parts_accepted parts"
      proof -
        from True c(3) have "list_all hextet lo" "length hi + length lo \<le> 7" by simp_all
        with c(1) have "parts_accepted ((if hi = [] then [[]] else hi) @ [[]]
                                         @ (if lo = [] then [[]] else lo))"
          by (rule parts_accepted_compressed)
        then show ?thesis by (simp only: c(4))
      qed
      ultimately show ?thesis by simp
    next
      case False
      with c(2) have g: "lo \<noteq> []" "list_all hextet (butlast lo)" "dotted_quad (last lo)"
        "length lo + 1 = n"
        by (auto simp: groups_def)
      from g(1) c(4) have lp: "last parts = last lo"
        "butlast parts = (if hi = [] then [[]] else hi) @ [[]] @ butlast lo"
        by (simp_all add: butlast_append)
      from g(3) obtain v where v: "IPv4Address (last lo) = Inr v"
        using IPv4Address_iff [of "last lo"] by blast
      define lo' where "lo' = butlast lo @ [hex_str (v div 65536 mod 65536),
                                             hex_str (v mod 65536)]"
      have "list_all hextet lo'" using g(2) by (simp add: lo'_def hex_str_hextet)
      moreover have "length hi + length lo' \<le> 7" using c(3) g(1,4) by (simp add: lo'_def)
      ultimately have "parts_accepted ((if hi = [] then [[]] else hi) @ [[]]
                                        @ (if lo' = [] then [[]] else lo'))"
        using c(1) by (intro parts_accepted_compressed)
      moreover have "(if lo' = [] then [[]] else lo') = lo'" by (simp add: lo'_def)
      ultimately have "parts_accepted (butlast parts
              @ [hex_str (v div 65536 mod 65536), hex_str (v mod 65536)])"
        by (simp add: lp lo'_def)
      with v dotted_quad_dot [OF g(3)] lp(1) show ?thesis by auto
    qed
  qed
qed

text \<open>\<open>_ip_int_from_string\<close> of \<open>IPv6Address\<close> parses exactly the texts of the two forms.\<close>

lemma ipv6_int_from_string_iff: "(\<exists>n. ipv6_int_from_string t = Inr n) \<longleftrightarrow> ipv6_text t"
proof
  assume "\<exists>n. ipv6_int_from_string t = Inr n"
  then have chk: "if CHR ''.'' \<in> set (last (py_split (CHR '':'') t))
         then \<exists>v. IPv4Address (last (py_split (CHR '':'') t)) = Inr v
                \<and> parts_accepted (butlast (py_split (CHR '':'') t)
                                    @ [hex_str (v div 65536 mod 65536), hex_str (v mod 65536)])
         else parts_accepted (py_split (CHR '':'') t)"
    unfolding ipv6_int_from_string_ok by blast
  have tj: "t = joined (CHR '':'') (py_split (CHR '':'') t)" by (simp add: joined_py_split)
  from chk have "groups 8 (py_split (CHR '':'') t)
             \<or> (\<exists>hi lo n. list_all hextet hi \<and> groups n lo \<and> length hi + n \<le> 7
                   \<and> py_split (CHR '':'') t = (if hi = [] then [[]] else hi) @ [[]]
                               @ (if lo = [] then [[]] else lo))"
    unfolding parts_checked_iff [OF py_split_ne] .
  then show "ipv6_text t"
  proof
    assume "groups 8 (py_split (CHR '':'') t)"
    with tj show ?thesis unfolding ipv6_text_def by blast
  next
    assume "\<exists>hi lo n. list_all hextet hi \<and> groups n lo \<and> length hi + n \<le> 7
                   \<and> py_split (CHR '':'') t = (if hi = [] then [[]] else hi) @ [[]]
                               @ (if lo = [] then [[]] else lo)"
    then obtain hi lo n where c: "list_all hextet hi" "groups n lo" "length hi + n \<le> 7"
      "py_split (CHR '':'') t = (if hi = [] then [[]] else hi) @ [[]]
                               @ (if lo = [] then [[]] else lo)"
      by blast
    have "t = joined (CHR '':'') hi @ ''::'' @ joined (CHR '':'') lo"
      using tj unfolding c(4) joined_compressed by simp
    with c(1,2,3) show ?thesis unfolding ipv6_text_def by blast
  qed
next
  assume "ipv6_text t"
  then consider (full) gs where "groups 8 gs" "t = joined (CHR '':'') gs"
    | (compressed) hi lo n where "list_all hextet hi" "groups n lo" "length hi + n \<le> 7"
        "t = joined (CHR '':'') hi @ ''::'' @ joined (CHR '':'') lo"
    unfolding ipv6_text_def by blast
  then have "\<exists>parts. t = joined (CHR '':'') parts \<and> 3 \<le> length parts
               \<and> (\<forall>p\<in>set parts. CHR '':'' \<notin> set p)
               \<and> (groups 8 parts
                   \<or> (\<exists>hi lo n. list_all hextet hi \<and> groups n lo \<and> length hi + n \<le> 7
                         \<and> parts = (if hi = [] then [[]] else hi) @ [[]]
                                     @ (if lo = [] then [[]] else lo)))"
  proof cases
    case full
    from full(1) have "3 \<le> length gs" unfolding groups_def by auto
    moreover have "\<forall>p\<in>set gs. CHR '':'' \<notin> set p"
      using groups_no [OF full(1)] by simp
    ultimately show ?thesis using full by blast
  next
    case compressed
    define parts where
      "parts = (if hi = [] then [[]] else hi) @ [[]] @ (if lo = [] then [[]] else lo)"
    have 1: "t = joined (CHR '':'') parts"
      unfolding parts_def joined_compressed compressed(4) by simp
    have 2: "3 \<le> length parts" by (cases hi; cases lo) (simp_all add: parts_def)
    have 3: "\<forall>p\<in>set parts. CHR '':'' \<notin> set p"
    proof
      fix p assume "p \<in> set parts"
      then have "p = [] \<or> p \<in> set hi \<or> p \<in> set lo"
        by (auto simp: parts_def split: if_splits)
      moreover have "CHR '':'' \<notin> set p" if "p \<in> set hi"
      proof -
        from that compressed(1) have "hextet p" unfolding list_all_iff by blast
        then show ?thesis by (rule hextet_no) simp
      qed
      moreover have "CHR '':'' \<notin> set p" if "p \<in> set lo"
        using compressed(2) that by (rule groups_no) simp_all
      ultimately show "CHR '':'' \<notin> set p" by auto
    qed
    from compressed(1,2,3) have "\<exists>hi lo n. list_all hextet hi \<and> groups n lo
                         \<and> length hi + n \<le> 7
                         \<and> parts = (if hi = [] then [[]] else hi) @ [[]]
                                     @ (if lo = [] then [[]] else lo)"
      unfolding parts_def by blast
    with 1 2 3 show ?thesis by blast
  qed
  then obtain parts where p: "t = joined (CHR '':'') parts" "3 \<le> length parts"
    "\<forall>p\<in>set parts. CHR '':'' \<notin> set p"
    "groups 8 parts
       \<or> (\<exists>hi lo n. list_all hextet hi \<and> groups n lo \<and> length hi + n \<le> 7
             \<and> parts = (if hi = [] then [[]] else hi) @ [[]]
                         @ (if lo = [] then [[]] else lo))"
    by blast
  from p(2) have ne: "parts \<noteq> []" by auto
  have sp: "py_split (CHR '':'') t = parts" unfolding p(1) using p(3) ne by (rule py_split_joined)
  have t: "t \<noteq> []"
  proof
    assume "t = []"
    then have "py_split (CHR '':'') t = [[]]" by simp
    with sp [symmetric] have "parts = [[]]" by (rule trans)
    then have "length parts = 1" by simp
    with p(2) show False by simp
  qed
  from p(4) have "if CHR ''.'' \<in> set (last parts)
          then \<exists>v. IPv4Address (last parts) = Inr v
                \<and> parts_accepted (butlast parts
                                    @ [hex_str (v div 65536 mod 65536), hex_str (v mod 65536)])
          else parts_accepted parts"
    unfolding parts_checked_iff [OF ne] .
  with t p(2) show "\<exists>n. ipv6_int_from_string t = Inr n"
    unfolding ipv6_int_from_string_ok sp by simp
qed

lemma joined_chars: "set (joined sep ps) \<subseteq> insert sep (\<Union>p\<in>set ps. set p)"
  by (induction sep ps rule: joined.induct) auto

lemma ipv6_text_no:
  assumes "ipv6_text t" "c \<notin> set ''0123456789ABCDEFabcdef''" "c \<noteq> CHR ''.''" "c \<noteq> CHR '':''"
  shows "c \<notin> set t"
proof -
  have j: "c \<notin> set (joined (CHR '':'') gs)" if "groups n gs" for n gs
  proof -
    have "\<forall>g\<in>set gs. c \<notin> set g" using groups_no [OF that _ assms(2,3)] by blast
    with assms(4) show ?thesis using joined_chars [of "CHR '':''" gs] by blast
  qed
  from assms(1) consider (full) gs where "groups 8 gs" "t = joined (CHR '':'') gs"
    | (compressed) hi lo n where "list_all hextet hi" "groups n lo"
        "t = joined (CHR '':'') hi @ ''::'' @ joined (CHR '':'') lo"
    unfolding ipv6_text_def by blast
  then show ?thesis
  proof cases
    case full
    then show ?thesis using j by simp
  next
    case compressed
    from compressed(1) have "groups (length hi) hi" by (simp add: groups_def)
    then have "c \<notin> set (joined (CHR '':'') hi)" by (rule j)
    moreover from compressed(2) have "c \<notin> set (joined (CHR '':'') lo)" by (rule j)
    ultimately show ?thesis using assms(4) by (simp add: compressed(3))
  qed
qed

text \<open>\<open>IPv6Address\<close> parses exactly the valid IPv6 strings.\<close>

lemma IPv6Address_iff: "(\<exists>r. IPv6Address t = Inr r) \<longleftrightarrow> valid_ipv6_string t"
proof
  assume "\<exists>r. IPv6Address t = Inr r"
  then obtain r where r: "IPv6Address t = Inr r" ..
  define addr where "addr = takeWhile (\<lambda>c. c \<noteq> CHR ''%'') t"
  define rest where "rest = dropWhile (\<lambda>c. c \<noteq> CHR ''%'') t"
  have tar: "t = addr @ rest" by (simp add: addr_def rest_def)
  from r have slash: "CHR ''/'' \<notin> set t"
    by (auto simp: IPv6Address_def split: if_splits)
  from r have sc: "rest = [] \<or> (tl rest \<noteq> [] \<and> CHR ''%'' \<notin> set (tl rest))"
    by (auto simp: IPv6Address_def split_scope_id_def Let_def rest_def
             split: if_splits sum.splits)
  from r have "\<exists>n. ipv6_int_from_string addr = Inr n"
    by (auto simp: IPv6Address_def split_scope_id_def Let_def addr_def
             split: if_splits sum.splits prod.splits)
  then have a: "ipv6_text addr" by (simp only: ipv6_int_from_string_iff)
  show "valid_ipv6_string t"
  proof (cases "rest = []")
    case True
    with tar a show ?thesis by (simp add: valid_ipv6_string_def)
  next
    case False
    then have "\<not> (hd rest \<noteq> CHR ''%'')" unfolding rest_def by (rule hd_dropWhile)
    with False have rest: "rest = CHR ''%'' # tl rest" by (cases rest) simp_all
    from sc False have z: "tl rest \<noteq> []" "CHR ''%'' \<notin> set (tl rest)" by simp_all
    from slash tar rest have "CHR ''/'' \<notin> set (tl rest)"
      by (metis Un_iff list.set_intros(2) set_append)
    moreover from tar rest have "t = addr @ ''%'' @ tl rest" by simp
    ultimately show ?thesis using a z unfolding valid_ipv6_string_def by blast
  qed
next
  assume "valid_ipv6_string t"
  then consider (plain) "ipv6_text t"
    | (zone) addr zone where "ipv6_text addr" "zone \<noteq> []" "CHR ''%'' \<notin> set zone"
        "CHR ''/'' \<notin> set zone" "t = addr @ ''%'' @ zone"
    unfolding valid_ipv6_string_def by blast
  then show "\<exists>r. IPv6Address t = Inr r"
  proof cases
    case plain
    then have n: "CHR ''%'' \<notin> set t" "CHR ''/'' \<notin> set t" by (rule ipv6_text_no; simp)+
    from n(1) have "takeWhile (\<lambda>c. c \<noteq> CHR ''%'') t = t" "dropWhile (\<lambda>c. c \<noteq> CHR ''%'') t = []"
      by auto
    then have "split_scope_id t = Inr (t, None)" by (simp add: split_scope_id_def)
    moreover from plain obtain m where "ipv6_int_from_string t = Inr m"
      using ipv6_int_from_string_iff [of t] by blast
    ultimately show ?thesis using n(2) by (simp add: IPv6Address_def)
  next
    case zone
    from zone(1) have n: "CHR ''%'' \<notin> set addr" "CHR ''/'' \<notin> set addr"
      by (rule ipv6_text_no; simp)+
    from n(1) have all: "\<forall>c\<in>set addr. c \<noteq> CHR ''%''" by blast
    then have "takeWhile (\<lambda>c. c \<noteq> CHR ''%'') t = addr"
      "dropWhile (\<lambda>c. c \<noteq> CHR ''%'') t = CHR ''%'' # zone"
      unfolding zone(5) by (simp_all add: takeWhile_tail)
    with zone(2,3) have "split_scope_id t = Inr (addr, Some zone)"
      by (simp add: split_scope_id_def)
    moreover from zone(1) obtain m where "ipv6_int_from_string addr = Inr m"
      using ipv6_int_from_string_iff [of addr] by blast
    moreover from n(2) zone(4) have "CHR ''/'' \<notin> set t" by (simp add: zone(5))
    ultimately show ?thesis by (simp add: IPv6Address_def)
  qed
qed

text \<open>\<open>validate_ip\<close> accepts exactly the valid IPv4 and IPv6 strings.\<close>

lemma validate_ip_iff: "validate_ip t \<longleftrightarrow> valid_ipv4_string t \<or> valid_ipv6_string t"
proof (cases "IPv4Address t")
  case (Inr n)
  then have "dotted_quad t" using IPv4Address_iff [of t] by blast
  with Inr show ?thesis by (simp add: validate_ip_def ip_address_def valid_ipv4_string_def)
next
  case v4: (Inl e)
  then have nq: "\<not> dotted_quad t" using IPv4Address_iff [of t] by auto
  show ?thesis
  proof (cases "IPv6Address t")
    case (Inr r)
    then have "valid_ipv6_string t" using IPv6Address_iff [of t] by blast
    with v4 Inr show ?thesis
      by (simp add: validate_ip_def ip_address_def split: prod.splits)
  next
    case (Inl e')
    then have "\<not> valid_ipv6_string t" using IPv6Address_iff [of t] by auto
    with v4 nq Inl show ?thesis
      by (simp add: validate_ip_def ip_address_def valid_ipv4_string_def)
  qed
qed

section \<open>The claims\<close>

text \<open>
  C6. The resolver produces trimmed, non-empty commands in source order: the inline string
  \<open>show version, show vlan\<close> resolves to exactly \<open>[show version, show vlan]\<close>, and so does a
  file with the three lines \<open>show version\<close>, an empty line and \<open>show vlan\<close>. In general, an
  inline string made of pieces separated by commas resolves to the pieces, each stripped,
  without the empty ones, in their order; a file made of lines, each ended by a line feed, by a
  carriage return and a line feed or by a carriage return, and of a last line without an end
  (possibly empty), resolves to the lines, each stripped, without the empty ones, in their
  order, or to the failure of an empty file when none is left. Stripping removes white space
  from both ends and nothing else, white space being the characters 9 to 13, 28 to 32, 133
  and 160, and no command of a result is empty or starts or ends with white space.
\<close>

theorem C6_load_commands_trimmed_in_order:
  "load_commands \<lparr>args_host = h, args_username = u,
                   args_commands = Some ''show version, show vlan'', args_file = None\<rparr> w
     = (Some [''show version'', ''show vlan''], w)
   \<and> (files w p = Some ''show version\<newline>\<newline>show vlan\<newline>'' \<and> p \<noteq> [] \<longrightarrow>
        load_commands \<lparr>args_host = h, args_username = u, args_commands = inl,
                        args_file = Some p\<rparr> w
          = (Some [''show version'', ''show vlan''], emit (OpenRead p) w))
   \<and> (\<not> truthy (args_file ia) \<and> truthy (args_commands ia)
        \<and> args_commands ia = Some (concat (map (\<lambda>pc. pc @ '','') pcs) @ lpc)
        \<and> (\<forall>pc\<in>set (lpc # pcs). CHR '','' \<notin> set pc) \<longrightarrow>
        load_commands ia iw
          = (Some (filter (\<lambda>c. c \<noteq> []) (map py_strip (pcs @ [lpc]))), iw))
   \<and> (args_file fa = Some fp \<and> fp \<noteq> []
        \<and> files fw fp = Some (concat (map2 (@) ls ts) @ lst) \<and> length ts = length ls
        \<and> (\<forall>t\<in>set ts. t = [CHR 0x0A] \<or> t = [CHR 0x0D, CHR 0x0A] \<or> t = [CHR 0x0D])
        \<and> (\<forall>l\<in>set (lst # ls). CHR 0x0A \<notin> set l \<and> CHR 0x0D \<notin> set l) \<longrightarrow>
        load_commands fa fw
          = (if filter (\<lambda>c. c \<noteq> []) (map py_strip (ls @ [lst])) = []
             then (None, emit (Print ''[ERROR] Command file was empty.'')
                           (emit (OpenRead fp) fw))
             else (Some (filter (\<lambda>c. c \<noteq> []) (map py_strip (ls @ [lst]))),
                   emit (OpenRead fp) fw)))
   \<and> (\<exists>pre post. s = pre @ py_strip s @ post \<and> list_all isspace pre \<and> list_all isspace post)
   \<and> (isspace ch \<longleftrightarrow> (of_char ch :: nat) \<in> {9, 10, 11, 12, 13, 28, 29, 30, 31, 32, 133, 160})
   \<and> (load_commands a wa = (Some cs, wb) \<and> c \<in> set cs \<longrightarrow>
        c \<noteq> [] \<and> \<not> isspace (hd c) \<and> \<not> isspace (last c))"
proof -
  have 1: "load_commands \<lparr>args_host = h, args_username = u,
                        args_commands = Some ''show version, show vlan'', args_file = None\<rparr> w
          = (Some [''show version'', ''show vlan''], w)"
    by (simp add: load_commands_def truthy_def py_strip_def isspace_def)
  have 2: "files w p = Some ''show version\<newline>\<newline>show vlan\<newline>'' \<and> p \<noteq> [] \<longrightarrow>
        load_commands \<lparr>args_host = h, args_username = u, args_commands = inl,
                        args_file = Some p\<rparr> w
          = (Some [''show version'', ''show vlan''], emit (OpenRead p) w)"
    by (simp add: load_commands_def truthy_def py_strip_def isspace_def)
  have 3: "load_commands ia iw
          = (Some (filter (\<lambda>c. c \<noteq> []) (map py_strip (pcs @ [lpc]))), iw)"
    if "\<not> truthy (args_file ia)" "truthy (args_commands ia)"
      "args_commands ia = Some (concat (map (\<lambda>pc. pc @ '','') pcs) @ lpc)"
      "\<forall>pc\<in>set (lpc # pcs). CHR '','' \<notin> set pc"
  proof -
    from that(2,3) have "concat (map (\<lambda>pc. pc @ '','') pcs) @ lpc \<noteq> []"
      by (simp add: truthy_def)
    with that(1,3) have "load_commands ia iw =
           (Some (filter (\<lambda>c. c \<noteq> []) (map py_strip (py_split (CHR '','')
                    (concat (map (\<lambda>pc. pc @ '','') pcs) @ lpc)))), iw)"
      by (rule load_commands_inline)
    then show ?thesis using py_split_pieces [OF that(4)] by simp
  qed
  have 4: "load_commands fa fw
          = (if filter (\<lambda>c. c \<noteq> []) (map py_strip (ls @ [lst])) = []
             then (None, emit (Print ''[ERROR] Command file was empty.'')
                           (emit (OpenRead fp) fw))
             else (Some (filter (\<lambda>c. c \<noteq> []) (map py_strip (ls @ [lst]))),
                   emit (OpenRead fp) fw))"
    if "args_file fa = Some fp" "fp \<noteq> []"
      "files fw fp = Some (concat (map2 (@) ls ts) @ lst)" "length ts = length ls"
      "\<forall>t\<in>set ts. t = [CHR 0x0A] \<or> t = [CHR 0x0D, CHR 0x0A] \<or> t = [CHR 0x0D]"
      "\<forall>l\<in>set (lst # ls). CHR 0x0A \<notin> set l \<and> CHR 0x0D \<notin> set l"
    unfolding load_commands_file_present [OF that(1,2,3)] commands_of_lines [OF that(4,5,6)]
    by (simp add: Let_def)
  have 5: "\<exists>pre post. s = pre @ py_strip s @ post \<and> list_all isspace pre
             \<and> list_all isspace post"
    by (rule py_strip_parts)
  have 6: "load_commands a wa = (Some cs, wb) \<and> c \<in> set cs \<longrightarrow>
        c \<noteq> [] \<and> \<not> isspace (hd c) \<and> \<not> isspace (last c)"
    using load_commands_trimmed by blast
  have 7: "isspace ch \<longleftrightarrow> (of_char ch :: nat) \<in> {9, 10, 11, 12, 13, 28, 29, 30, 31, 32, 133, 160}"
    unfolding isspace_def Let_def by auto
  from 1 2 3 4 5 6 7 show ?thesis by blast
qed

theorem C6_load_commands_witness:
  "load_commands \<lparr>args_host = ''192.168.1.102'', args_username = ''cisco'',
                   args_commands = None, args_file = Some ''commands.txt''\<rparr>
     \<lparr>files = [''commands.txt'' \<mapsto> ''show version\<newline>\<newline>show vlan\<newline>''], events = []\<rparr>
     = (Some [''show version'', ''show vlan''],
        \<lparr>files = [''commands.txt'' \<mapsto> ''show version\<newline>\<newline>show vlan\<newline>''],
         events = [OpenRead ''commands.txt'']\<rparr>)
   \<and> load_commands \<lparr>args_host = ''192.168.1.102'', args_username = ''cisco'',
                     args_commands = Some '' show vlan ,,show version'', args_file = None\<rparr>
       \<lparr>files = Map.empty, events = []\<rparr>
     = (Some [''show vlan'', ''show version''], \<lparr>files = Map.empty, events = []\<rparr>)
   \<and> load_commands \<lparr>args_host = ''192.168.1.102'', args_username = ''cisco'',
                     args_commands = None, args_file = Some ''batch.txt''\<rparr>
       \<lparr>files = [''batch.txt'' \<mapsto> ''show version'' @ [CHR 0x0D, CHR 0x0A, CHR 0x0A]
                                  @ ''  show vlan '' @ [CHR 0x0D] @ ''show run''],
        events = []\<rparr>
     = (Some [''show version'', ''show vlan'', ''show run''],
        \<lparr>files = [''batch.txt'' \<mapsto> ''show version'' @ [CHR 0x0D, CHR 0x0A, CHR 0x0A]
                                   @ ''  show vlan '' @ [CHR 0x0D] @ ''show run''],
         events = [OpenRead ''batch.txt'']\<rparr>)
   \<and> \<not> isspace (hd ''show vlan'') \<and> \<not> isspace (last ''show vlan'')"
proof -
  have a: "load_commands \<lparr>args_host = ''192.168.1.102'', args_username = ''cisco'',
                   args_commands = None, args_file = Some ''commands.txt''\<rparr>
     \<lparr>files = [''commands.txt'' \<mapsto> ''show version\<newline>\<newline>show vlan\<newline>''], events = []\<rparr>
     = (Some [''show version'', ''show vlan''],
        \<lparr>files = [''commands.txt'' \<mapsto> ''show version\<newline>\<newline>show vlan\<newline>''],
         events = [OpenRead ''commands.txt'']\<rparr>)"
    using C6_load_commands_trimmed_in_order
      [where h = "''192.168.1.102''" and u = "''cisco''" and inl = None
         and p = "''commands.txt''"
         and w = "\<lparr>files = [''commands.txt'' \<mapsto> ''show version\<newline>\<newline>show vlan\<newline>''],
                    events = []\<rparr>",
       THEN conjunct2, THEN conjunct1]
    by (simp add: emit_def)
  have b: "load_commands \<lparr>args_host = ''192.168.1.102'', args_username = ''cisco'',
                     args_commands = Some '' show vlan ,,show version'', args_file = None\<rparr>
       \<lparr>files = Map.empty, events = []\<rparr>
     = (Some [''show vlan'', ''show version''], \<lparr>files = Map.empty, events = []\<rparr>)"
    using C6_load_commands_trimmed_in_order
      [where ia = "\<lparr>args_host = ''192.168.1.102'', args_username = ''cisco'',
                     args_commands = Some '' show vlan ,,show version'', args_file = None\<rparr>"
         and pcs = "['' show vlan '', []]" and lpc = "''show version''"
         and iw = "\<lparr>files = Map.empty, events = []\<rparr>",
       THEN conjunct2, THEN conjunct2, THEN conjunct1]
    by (simp add: truthy_def py_strip_def isspace_def)
  have c: "load_commands \<lparr>args_host = ''192.168.1.102'', args_username = ''cisco'',
                     args_commands = None, args_file = Some ''batch.txt''\<rparr>
       \<lparr>files = [''batch.txt'' \<mapsto> ''show version'' @ [CHR 0x0D, CHR 0x0A, CHR 0x0A]
                                  @ ''  show vlan '' @ [CHR 0x0D] @ ''show run''],
        events = []\<rparr>
     = (Some [''show version'', ''show vlan'', ''show run''],
        \<lparr>files = [''batch.txt'' \<mapsto> ''show version'' @ [CHR 0x0D, CHR 0x0A, CHR 0x0A]
                                   @ ''  show vlan '' @ [CHR 0x0D] @ ''show run''],
         events = [OpenRead ''batch.txt'']\<rparr>)"
    using C6_load_commands_trimmed_in_order
      [where fa = "\<lparr>args_host = ''192.168.1.102'', args_username = ''cisco'',
                     args_commands = None, args_file = Some ''batch.txt''\<rparr>"
         and fp = "''batch.txt''"
         and ls = "[''show version'', [], ''  show vlan '']" and lst = "''show run''"
         and ts = "[[CHR 0x0D, CHR 0x0A], [CHR 0x0A], [CHR 0x0D]]"
         and fw = "\<lparr>files = [''batch.txt'' \<mapsto> ''show version''
                                  @ [CHR 0x0D, CHR 0x0A, CHR 0x0A]
                                  @ ''  show vlan '' @ [CHR 0x0D] @ ''show run''],
                     events = []\<rparr>",
       THEN conjunct2, THEN conjunct2, THEN conjunct2, THEN conjunct1]
    by (simp add: emit_def py_strip_def isspace_def)
  have d: "\<not> isspace (hd ''show vlan'') \<and> \<not> isspace (last ''show vlan'')"
    using b C6_load_commands_trimmed_in_order
      [where a = "\<lparr>args_host = ''192.168.1.102'', args_username = ''cisco'',
                    args_commands = Some '' show vlan ,,show version'', args_file = None\<rparr>"
         and wa = "\<lparr>files = Map.empty, events = []\<rparr>"
         and cs = "[''show vlan'', ''show version'']"
         and wb = "\<lparr>files = Map.empty, events = []\<rparr>"
         and c = "''show vlan''",
       THEN conjunct2, THEN conjunct2, THEN conjunct2, THEN conjunct2, THEN conjunct2,
       THEN conjunct2]
    by simp
  from a b c d [THEN conjunct1] d [THEN conjunct2] show ?thesis by (intro conjI)
qed

text \<open>
  C4. \<open>connect_and_run_commands\<close> reports every fault of the session as \<open>False\<close>: when
  \<open>ConnectHandler\<close> raises (a timeout, a rejected login or anything else) the result is
  \<open>False\<close>, the error line is printed and no file is created or changed; when a
  \<open>send_command\<close> raises after some commands were answered the result is \<open>False\<close> too. The
  result is \<open>True\<close> exactly when the connection opens and every command is answered: there
  is no third outcome.
\<close>

theorem C4_faults_reported_as_failure:
  "(C (device_for h u p) = Inl f \<longrightarrow>
      connect_and_run_commands C now h u p cs d w
        = (False, handle_fault f h u
                    (emit (ConnectHandlerCall (device_for h u p))
                       (emit (Print (''\<newline>Connecting to '' @ h @ ''...'')) w)))
      \<and> files (snd (connect_and_run_commands C now h u p cs d w)) = files w)
   \<and> (C (device_for h u p) = Inr s \<and> answers s [] pre outs \<and> s pre c = Inl f \<longrightarrow>
        fst (connect_and_run_commands C now h u p (pre @ c # post) d w) = False)
   \<and> (fst (connect_and_run_commands C now h u p cs d w)
        \<longleftrightarrow> (\<exists>s outs. C (device_for h u p) = Inr s \<and> answers s [] cs outs))"
proof -
  have "C (device_for h u p) = Inl f \<longrightarrow>
      connect_and_run_commands C now h u p cs d w
        = (False, handle_fault f h u
                    (emit (ConnectHandlerCall (device_for h u p))
                       (emit (Print (''\<newline>Connecting to '' @ h @ ''...'')) w)))
      \<and> files (snd (connect_and_run_commands C now h u p cs d w)) = files w"
    by (simp add: carc_connect_fault)
  moreover have "C (device_for h u p) = Inr s \<and> answers s [] pre outs \<and> s pre c = Inl f \<longrightarrow>
        fst (connect_and_run_commands C now h u p (pre @ c # post) d w) = False"
    using carc_command_fault [of C h u p s pre outs c f now post d w] by simp
  ultimately show ?thesis using carc_succeeds_iff [of C now h u p cs d w] by blast
qed

theorem C4_faults_witness:
  "connect_and_run_commands (\<lambda>dev. Inl NetmikoAuthenticationException)
      \<lparr>dt_year = 2024, dt_month = 1, dt_day = 2, dt_hour = 3, dt_minute = 4, dt_second = 5\<rparr>
      ''192.168.1.102'' ''cisco'' ''secret'' [''show version''] ''logs''
      \<lparr>files = Map.empty, events = []\<rparr>
     = (False, \<lparr>files = Map.empty,
                events = [Print ''\<newline>Connecting to 192.168.1.102...'',
                          ConnectHandlerCall (device_for ''192.168.1.102'' ''cisco'' ''secret''),
                          Print ''[ERROR] Authentication failed for cisco@192.168.1.102.'']\<rparr>)
   \<and> fst (connect_and_run_commands
            (\<lambda>dev. Inr (\<lambda>sent cmd. if sent = [] then Inr ''OK''
                                     else Inl NetmikoTimeoutException))
      \<lparr>dt_year = 2024, dt_month = 1, dt_day = 2, dt_hour = 3, dt_minute = 4, dt_second = 5\<rparr>
      ''192.168.1.102'' ''cisco'' ''secret'' [''show version'', ''show vlan''] ''logs''
      \<lparr>files = Map.empty, events = []\<rparr>) = False"
proof -
  have a: "connect_and_run_commands (\<lambda>dev. Inl NetmikoAuthenticationException)
      \<lparr>dt_year = 2024, dt_month = 1, dt_day = 2, dt_hour = 3, dt_minute = 4, dt_second = 5\<rparr>
      ''192.168.1.102'' ''cisco'' ''secret'' [''show version''] ''logs''
      \<lparr>files = Map.empty, events = []\<rparr>
     = (False, \<lparr>files = Map.empty,
                events = [Print ''\<newline>Connecting to 192.168.1.102...'',
                          ConnectHandlerCall (device_for ''192.168.1.102'' ''cisco'' ''secret''),
                          Print ''[ERROR] Authentication failed for cisco@192.168.1.102.'']\<rparr>)"
    using C4_faults_reported_as_failure
      [where C = "\<lambda>dev. Inl NetmikoAuthenticationException"
         and f = NetmikoAuthenticationException
         and h = "''192.168.1.102''" and u = "''cisco''" and p = "''secret''"
         and now = "\<lparr>dt_year = 2024, dt_month = 1, dt_day = 2, dt_hour = 3, dt_minute = 4,
                      dt_second = 5\<rparr>"
         and cs = "[''show version'']" and d = "''logs''"
         and w = "\<lparr>files = Map.empty, events = []\<rparr>", THEN conjunct1]
    by (simp add: handle_fault_def emit_def)
  have b: "fst (connect_and_run_commands
            (\<lambda>dev. Inr (\<lambda>sent cmd. if sent = [] then Inr ''OK''
                                     else Inl NetmikoTimeoutException))
      \<lparr>dt_year = 2024, dt_month = 1, dt_day = 2, dt_hour = 3, dt_minute = 4, dt_second = 5\<rparr>
      ''192.168.1.102'' ''cisco'' ''secret'' [''show version'', ''show vlan''] ''logs''
      \<lparr>files = Map.empty, events = []\<rparr>) = False"
    using C4_faults_reported_as_failure
      [where C = "\<lambda>dev. Inr (\<lambda>sent cmd. if sent = [] then Inr ''OK''
                                           else Inl NetmikoTimeoutException)"
         and s = "\<lambda>sent cmd. if sent = [] then Inr ''OK'' else Inl NetmikoTimeoutException"
         and f = NetmikoTimeoutException
         and h = "''192.168.1.102''" and u = "''cisco''" and p = "''secret''"
         and pre = "[''show version'']" and outs = "[''OK'']" and c = "''show vlan''"
         and post = "[]"
         and now = "\<lparr>dt_year = 2024, dt_month = 1, dt_day = 2, dt_hour = 3, dt_minute = 4,
                      dt_second = 5\<rparr>"
         and d = "''logs''"
         and w = "\<lparr>files = Map.empty, events = []\<rparr>", THEN conjunct2, THEN conjunct1]
    by simp
  from a b show ?thesis by (rule conjI)
qed

text \<open>
  C10. When the session is open, the commands \<open>pre\<close> are answered and \<open>send_command\<close> raises
  on the next command \<open>c\<close>, the attempt returns \<open>False\<close> but has left its trace: the log file
  of the attempt exists and holds exactly the entries of the commands of \<open>pre\<close>, in order, one
  for each of them: an empty line, the line \<open>--- command ---\<close>, and the output of the command
  followed by a newline. Nothing is written for \<open>c\<close> or for the commands after it, and
  \<open>disconnect\<close> is not called. In every run \<open>disconnect\<close> is called if and only if the
  function returns \<open>True\<close>.
\<close>

theorem C10_fault_mid_batch_leaves_partial_log:
  "(C (device_for h u p) = Inr s \<and> answers s [] pre outs \<and> s pre c = Inl f \<longrightarrow>
      fst (connect_and_run_commands C now h u p (pre @ c # post) d w) = False
      \<and> files (snd (connect_and_run_commands C now h u p (pre @ c # post) d w))
          = (files w)(log_file_for d h now \<mapsto>
               concat (map2 (\<lambda>cmd out. ''\<newline>--- '' @ cmd @ '' ---\<newline>'' @ out @ ''\<newline>'')
                         pre outs))
      \<and> length outs = length pre
      \<and> Disconnect \<notin> set (drop (length (events w))
                 (events (snd (connect_and_run_commands C now h u p (pre @ c # post) d w)))))
   \<and> (Disconnect \<in> set (drop (length (events w))
                        (events (snd (connect_and_run_commands C now h u p cs d w))))
        \<longleftrightarrow> fst (connect_and_run_commands C now h u p cs d w))"
proof -
  have le: "log_entry = (\<lambda>cmd out. ''\<newline>--- '' @ cmd @ '' ---\<newline>'' @ out @ ''\<newline>'')"
    by (rule ext, rule ext) (simp add: log_entry_def)
  have "fst (connect_and_run_commands C now h u p (pre @ c # post) d w) = False
      \<and> files (snd (connect_and_run_commands C now h u p (pre @ c # post) d w))
          = (files w)(log_file_for d h now \<mapsto>
               concat (map2 (\<lambda>cmd out. ''\<newline>--- '' @ cmd @ '' ---\<newline>'' @ out @ ''\<newline>'')
                         pre outs))
      \<and> length outs = length pre
      \<and> Disconnect \<notin> set (drop (length (events w))
                 (events (snd (connect_and_run_commands C now h u p (pre @ c # post) d w))))"
    if a: "C (device_for h u p) = Inr s" "answers s [] pre outs" "s pre c = Inl f"
  proof -
    have r: "connect_and_run_commands C now h u p (pre @ c # post) d w =
           (False, handle_fault f h u
              (w\<lparr>files := (files w)(log_file_for d h now
                                      \<mapsto> concat (map2 log_entry pre outs)),
                 events := events w @ session_opening d h u p now
                           @ concat (map2 command_events pre outs)
                           @ [Print (''\<newline>[Running] '' @ c), SendCommand c]\<rparr>))"
      using a by (rule carc_command_fault)
    have "\<not> fst (connect_and_run_commands C now h u p (pre @ c # post) d w)"
      by (simp add: r)
    with disconnect_iff_success [of w C now h u p "pre @ c # post" d]
    have "Disconnect \<notin> set (drop (length (events w))
                 (events (snd (connect_and_run_commands C now h u p (pre @ c # post) d w))))"
      by simp
    moreover have "length outs = length pre"
      using a(2) by (rule answers_length)
    ultimately show ?thesis by (simp add: r le)
  qed
  then show ?thesis using disconnect_iff_success [of w C now h u p cs d] by blast
qed

theorem C10_fault_mid_batch_witness:
  "fst (connect_and_run_commands
          (\<lambda>dev. Inr (\<lambda>sent cmd. if length sent < 2 then Inr (''OK '' @ cmd)
                                   else Inl (OtherException ''Socket is closed'')))
          \<lparr>dt_year = 2024, dt_month = 1, dt_day = 2, dt_hour = 3, dt_minute = 4, dt_second = 5\<rparr>
          ''192.168.1.102'' ''cisco'' ''secret''
          [''show version'', ''show vlan'', ''show running-config''] ''logs''
          \<lparr>files = Map.empty, events = []\<rparr>) = False
   \<and> files (snd (connect_and_run_commands
          (\<lambda>dev. Inr (\<lambda>sent cmd. if length sent < 2 then Inr (''OK '' @ cmd)
                                   else Inl (OtherException ''Socket is closed'')))
          \<lparr>dt_year = 2024, dt_month = 1, dt_day = 2, dt_hour = 3, dt_minute = 4, dt_second = 5\<rparr>
          ''192.168.1.102'' ''cisco'' ''secret''
          [''show version'', ''show vlan'', ''show running-config''] ''logs''
          \<lparr>files = Map.empty, events = []\<rparr>))
     = [''logs/192_168_1_102_20240102_030405.log''
          \<mapsto> ''\<newline>--- show version ---\<newline>OK show version\<newline>\<newline>--- show vlan ---\<newline>OK show vlan\<newline>'']"
  using C10_fault_mid_batch_leaves_partial_log
    [where C = "\<lambda>dev. Inr (\<lambda>sent cmd. if length sent < 2 then Inr (''OK '' @ cmd)
                                   else Inl (OtherException ''Socket is closed''))"
       and s = "\<lambda>sent cmd. if length sent < 2 then Inr (''OK '' @ cmd)
                                   else Inl (OtherException ''Socket is closed'')"
       and f = "OtherException ''Socket is closed''"
       and h = "''192.168.1.102''" and u = "''cisco''" and p = "''secret''"
       and pre = "[''show version'', ''show vlan'']"
       and outs = "[''OK show version'', ''OK show vlan'']" and c = "''show running-config''"
       and post = "[]"
       and now = "\<lparr>dt_year = 2024, dt_month = 1, dt_day = 2, dt_hour = 3, dt_minute = 4,
                    dt_second = 5\<rparr>"
       and d = "''logs''"
       and w = "\<lparr>files = Map.empty, events = []\<rparr>", THEN conjunct1]
  by (simp add: log_file_for_def os_path_join_def py_replace_def strftime_def
        zfill_def str_nat.simps)

text \<open>
  C3 as stated does not hold: with a session that returns \<open>OK\<close> for every command, the log
  of the batch \<open>show version\<close>, \<open>show vlan\<close> starts with an empty line and has no blank line
  after the last entry, so it is not the sequence of entries made of a header line, the
  output and a trailing blank line.
\<close>

theorem C3_entry_format_counterexample:
  "files (snd (connect_and_run_commands (\<lambda>dev. Inr (\<lambda>sent cmd. Inr ''OK''))
          \<lparr>dt_year = 2024, dt_month = 1, dt_day = 2, dt_hour = 3, dt_minute = 4, dt_second = 5\<rparr>
          ''192.168.1.102'' ''cisco'' ''secret'' [''show version'', ''show vlan''] ''logs''
          \<lparr>files = Map.empty, events = []\<rparr>))
       ''logs/192_168_1_102_20240102_030405.log''
     = Some ''\<newline>--- show version ---\<newline>OK\<newline>\<newline>--- show vlan ---\<newline>OK\<newline>''
   \<and> ''\<newline>--- show version ---\<newline>OK\<newline>\<newline>--- show vlan ---\<newline>OK\<newline>''
       \<noteq> concat (map2 spec_transcript_entry [''show version'', ''show vlan''] [''OK'', ''OK''])"
proof -
  have "answers (\<lambda>sent cmd. Inr ''OK'') [] [''show version'', ''show vlan''] [''OK'', ''OK'']"
    by simp
  then show ?thesis
    by (simp add: carc_success [where s = "\<lambda>sent cmd. Inr ''OK''" and outs = "[''OK'', ''OK'']"]
          log_entry_def spec_transcript_entry_def log_file_for_def os_path_join_def
          py_replace_def strftime_def zfill_def str_nat.simps)
qed

text \<open>
  C3, amended. For every successful session run on a host that \<open>validate_ip\<close> accepts, the
  function returns \<open>True\<close>, opens exactly one file for writing and changes the file system
  at that path only. The path is \<open>logs/\<close>, the host with every \<open>.\<close> replaced by \<open>_\<close>, \<open>_\<close>, the
  time stamp and \<open>.log\<close>; the time stamp is eight digits, \<open>_\<close> and six digits. The content
  is one entry per command of the batch, in batch order, each entry being an empty line, the
  header line \<open>--- command ---\<close>, and the raw output followed by one newline.
\<close>

theorem C3_log_file_of_successful_session:
  "(validate_ip h \<and> C (device_for h u p) = Inr s \<and> answers s [] cs outs \<longrightarrow>
      fst (connect_and_run_commands C now h u p cs ''logs'' w) = True
      \<and> files (snd (connect_and_run_commands C now h u p cs ''logs'' w))
          = (files w)(''logs/'' @ py_replace (CHR ''.'') (CHR ''_'') h @ ''_'' @ strftime now
                       @ ''.log'' \<mapsto> concat (map2 log_entry cs outs))
      \<and> opened_for_writing (events (snd (connect_and_run_commands C now h u p cs ''logs'' w)))
          = opened_for_writing (events w)
            @ [''logs/'' @ py_replace (CHR ''.'') (CHR ''_'') h @ ''_'' @ strftime now
               @ ''.log''])
   \<and> log_entry cmd out = ''\<newline>--- '' @ cmd @ '' ---\<newline>'' @ out @ ''\<newline>''
   \<and> (datetime_ok now \<longrightarrow>
        length (strftime now) = 15 \<and> strftime now ! 8 = CHR ''_''
        \<and> list_all is_digit (take 8 (strftime now))
        \<and> list_all is_digit (drop 9 (strftime now)))"
proof -
  have "fst (connect_and_run_commands C now h u p cs ''logs'' w) = True
      \<and> files (snd (connect_and_run_commands C now h u p cs ''logs'' w))
          = (files w)(''logs/'' @ py_replace (CHR ''.'') (CHR ''_'') h @ ''_'' @ strftime now
                       @ ''.log'' \<mapsto> concat (map2 log_entry cs outs))
      \<and> opened_for_writing (events (snd (connect_and_run_commands C now h u p cs ''logs'' w)))
          = opened_for_writing (events w)
            @ [''logs/'' @ py_replace (CHR ''.'') (CHR ''_'') h @ ''_'' @ strftime now
               @ ''.log'']"
    if a: "validate_ip h" "C (device_for h u p) = Inr s" "answers s [] cs outs"
  proof -
    from a(1) have "CHR ''/'' \<notin> set h" by (rule validate_ip_no_slash)
    then have lf: "log_file_for ''logs'' h now
           = ''logs/'' @ py_replace (CHR ''.'') (CHR ''_'') h @ ''_'' @ strftime now @ ''.log''"
      by (rule log_file_for_logs)
    have "connect_and_run_commands C now h u p cs ''logs'' w =
           (True, w\<lparr>files := (files w)(log_file_for ''logs'' h now
                                         \<mapsto> concat (map2 log_entry cs outs)),
                    events := events w @ session_opening ''logs'' h u p now
                              @ concat (map2 command_events cs outs)
                              @ [PrintSaved (log_file_for ''logs'' h now), Disconnect]\<rparr>)"
      using a(2,3) by (rule carc_success)
    then show ?thesis unfolding session_opening_def lf by simp
  qed
  moreover have "log_entry cmd out = ''\<newline>--- '' @ cmd @ '' ---\<newline>'' @ out @ ''\<newline>''"
    by (simp add: log_entry_def)
  ultimately show ?thesis using strftime_shape [of now] by blast
qed

theorem C3_log_file_witness:
  "files (snd (connect_and_run_commands (\<lambda>dev. Inr (\<lambda>sent cmd. Inr ''OK''))
          \<lparr>dt_year = 2024, dt_month = 1, dt_day = 2, dt_hour = 3, dt_minute = 4, dt_second = 5\<rparr>
          ''192.168.1.102'' ''cisco'' ''secret'' [''show version'', ''show vlan''] ''logs''
          \<lparr>files = Map.empty, events = []\<rparr>))
     = [''logs/192_168_1_102_20240102_030405.log''
          \<mapsto> ''\<newline>--- show version ---\<newline>OK\<newline>\<newline>--- show vlan ---\<newline>OK\<newline>'']
   \<and> length (strftime \<lparr>dt_year = 2024, dt_month = 1, dt_day = 2, dt_hour = 3, dt_minute = 4,
                        dt_second = 5\<rparr>) = 15"
proof -
  have v: "validate_ip ''192.168.1.102''"
    by (simp add: validate_ip_def ip_address_def IPv4Address_def ipv4_int_from_string_def
          parse_octet_def int_of_digits_def decimal_val_def)
  show ?thesis
    using v C3_log_file_of_successful_session
      [where h = "''192.168.1.102''" and u = "''cisco''" and p = "''secret''"
         and C = "\<lambda>dev. Inr (\<lambda>sent cmd. Inr ''OK'')" and s = "\<lambda>sent cmd. Inr ''OK''"
         and cs = "[''show version'', ''show vlan'']" and outs = "[''OK'', ''OK'']"
         and now = "\<lparr>dt_year = 2024, dt_month = 1, dt_day = 2, dt_hour = 3, dt_minute = 4,
                      dt_second = 5\<rparr>"
         and w = "\<lparr>files = Map.empty, events = []\<rparr>"]
    by (simp add: strftime_def zfill_def str_nat.simps datetime_ok_def py_replace_def
          log_entry_def)
qed




text \<open>
  C2 as stated does not hold: \<open>load_commands\<close> tests \<open>args.file\<close> first. With both
  \<open>--commands "show vlan"\<close> and \<open>--file commands.txt\<close>, where the file holds the line
  \<open>show version\<close>, the file is opened and the batch is the file's, not that of the inline
  string alone.
\<close>

theorem C2_inline_precedence_counterexample:
  "load_commands \<lparr>args_host = ''192.168.1.102'', args_username = ''cisco'',
                   args_commands = Some ''show vlan'', args_file = Some ''commands.txt''\<rparr>
     \<lparr>files = [''commands.txt'' \<mapsto> ''show version\<newline>''], events = []\<rparr>
     = (Some [''show version''],
        \<lparr>files = [''commands.txt'' \<mapsto> ''show version\<newline>''],
         events = [OpenRead ''commands.txt'']\<rparr>)
   \<and> load_commands \<lparr>args_host = ''192.168.1.102'', args_username = ''cisco'',
                     args_commands = Some ''show vlan'', args_file = None\<rparr>
       \<lparr>files = [''commands.txt'' \<mapsto> ''show version\<newline>''], events = []\<rparr>
     = (Some [''show vlan''],
        \<lparr>files = [''commands.txt'' \<mapsto> ''show version\<newline>''], events = []\<rparr>)"
  by (simp add: load_commands_def truthy_def py_strip_def isspace_def emit_def Let_def)

text \<open>
  C2, amended. When both an inline command string and a command-file path are given, the
  file takes precedence: the file is opened, and the result is the one obtained from the
  file alone, whatever the inline string. The inline string is used only when no file path
  is given (or the path is the empty string), and then no file is read.
\<close>

theorem C2_file_takes_precedence:
  "(truthy (args_file a) \<longrightarrow>
      load_commands a w = load_commands (a\<lparr>args_commands := None\<rparr>) w
      \<and> OpenRead (the (args_file a)) \<in> set (events (snd (load_commands a w))))
   \<and> (\<not> truthy (args_file a) \<and> args_commands a = Some s \<and> s \<noteq> [] \<longrightarrow>
        load_commands a w
          = (Some (filter (\<lambda>c. c \<noteq> []) (map py_strip (py_split (CHR '','') s))), w))"
proof -
  have "load_commands a w = load_commands (a\<lparr>args_commands := None\<rparr>) w
      \<and> OpenRead (the (args_file a)) \<in> set (events (snd (load_commands a w)))"
    if "truthy (args_file a)"
    using that by (simp add: load_commands_def Let_def split: option.splits)
  then show ?thesis using load_commands_inline [of a s w] by blast
qed

theorem C2_file_takes_precedence_witness:
  "load_commands \<lparr>args_host = ''192.168.1.102'', args_username = ''cisco'',
                   args_commands = Some ''show vlan'', args_file = Some ''commands.txt''\<rparr>
     \<lparr>files = [''commands.txt'' \<mapsto> ''show version\<newline>''], events = []\<rparr>
   = load_commands \<lparr>args_host = ''192.168.1.102'', args_username = ''cisco'',
                     args_commands = None, args_file = Some ''commands.txt''\<rparr>
       \<lparr>files = [''commands.txt'' \<mapsto> ''show version\<newline>''], events = []\<rparr>
   \<and> load_commands \<lparr>args_host = ''192.168.1.102'', args_username = ''cisco'',
                     args_commands = Some ''show vlan'', args_file = None\<rparr>
       \<lparr>files = [''commands.txt'' \<mapsto> ''show version\<newline>''], events = []\<rparr>
     = (Some [''show vlan''],
        \<lparr>files = [''commands.txt'' \<mapsto> ''show version\<newline>''], events = []\<rparr>)"
proof -
  have a: "load_commands \<lparr>args_host = ''192.168.1.102'', args_username = ''cisco'',
                   args_commands = Some ''show vlan'', args_file = Some ''commands.txt''\<rparr>
     \<lparr>files = [''commands.txt'' \<mapsto> ''show version\<newline>''], events = []\<rparr>
   = load_commands \<lparr>args_host = ''192.168.1.102'', args_username = ''cisco'',
                     args_commands = None, args_file = Some ''commands.txt''\<rparr>
       \<lparr>files = [''commands.txt'' \<mapsto> ''show version\<newline>''], events = []\<rparr>"
    using C2_file_takes_precedence
      [where a = "\<lparr>args_host = ''192.168.1.102'', args_username = ''cisco'',
                   args_commands = Some ''show vlan'', args_file = Some ''commands.txt''\<rparr>"
         and w = "\<lparr>files = [''commands.txt'' \<mapsto> ''show version\<newline>''], events = []\<rparr>",
         THEN conjunct1]
    by (simp add: truthy_def)
  have b: "load_commands \<lparr>args_host = ''192.168.1.102'', args_username = ''cisco'',
                     args_commands = Some ''show vlan'', args_file = None\<rparr>
       \<lparr>files = [''commands.txt'' \<mapsto> ''show version\<newline>''], events = []\<rparr>
     = (Some [''show vlan''],
        \<lparr>files = [''commands.txt'' \<mapsto> ''show version\<newline>''], events = []\<rparr>)"
    using C2_file_takes_precedence
      [where a = "\<lparr>args_host = ''192.168.1.102'', args_username = ''cisco'',
                   args_commands = Some ''show vlan'', args_file = None\<rparr>"
         and s = "''show vlan''"
         and w = "\<lparr>files = [''commands.txt'' \<mapsto> ''show version\<newline>''], events = []\<rparr>",
         THEN conjunct2]
    by (simp add: truthy_def py_strip_def isspace_def)
  from a b show ?thesis by (rule conjI)
qed

text \<open>
  C7. Resolution fails in three ways, each with its own error line and each returning
  \<open>None\<close>: the file exists but every line of it is blank (\<open>Command file was empty\<close>); there is
  no file at the path (\<open>Command file ... not found\<close>); neither a file path nor an inline
  string is given (\<open>You must provide commands ...\<close>). The three lines differ from one another,
  and \<open>None\<close> is returned in no other case.
\<close>

theorem C7_three_resolution_failures:
  "(args_file a = Some path \<and> path \<noteq> [] \<and> files w path = Some body
      \<and> list_all (\<lambda>l. py_strip l = []) (readlines (universal_newlines body)) \<longrightarrow>
      load_commands a w
        = (None, emit (Print ''[ERROR] Command file was empty.'') (emit (OpenRead path) w)))
   \<and> (args_file a = Some path \<and> path \<noteq> [] \<and> files w path = None \<longrightarrow>
        load_commands a w
          = (None, emit (Print (''[ERROR] Command file '' @ [CHR 0x27] @ path @ [CHR 0x27]
                                  @ '' not found.'')) (emit (OpenRead path) w)))
   \<and> (\<not> truthy (args_file a) \<and> \<not> truthy (args_commands a) \<longrightarrow>
        load_commands a w
          = (None, emit (Print
               ''[ERROR] You must provide commands with --commands or a file with --file'') w))
   \<and> (fst (load_commands a w) = None \<longleftrightarrow>
        (truthy (args_file a)
           \<and> (case files w (the (args_file a)) of
                 None \<Rightarrow> True
               | Some body \<Rightarrow>
                   list_all (\<lambda>l. py_strip l = []) (readlines (universal_newlines body))))
        \<or> (\<not> truthy (args_file a) \<and> \<not> truthy (args_commands a)))
   \<and> ''[ERROR] Command file was empty.''
        \<noteq> ''[ERROR] Command file '' @ [CHR 0x27] @ path @ [CHR 0x27] @ '' not found.''
   \<and> ''[ERROR] Command file was empty.''
        \<noteq> ''[ERROR] You must provide commands with --commands or a file with --file''
   \<and> ''[ERROR] Command file '' @ [CHR 0x27] @ path @ [CHR 0x27] @ '' not found.''
        \<noteq> ''[ERROR] You must provide commands with --commands or a file with --file''"
proof -
  have blank: "filter (\<lambda>c. c \<noteq> []) (map py_strip ls) = [] \<longleftrightarrow> list_all (\<lambda>l. py_strip l = []) ls"
    for ls
    by (induction ls) simp_all
  have 1: "args_file a = Some path \<and> path \<noteq> [] \<and> files w path = Some body
      \<and> list_all (\<lambda>l. py_strip l = []) (readlines (universal_newlines body)) \<longrightarrow>
      load_commands a w
        = (None, emit (Print ''[ERROR] Command file was empty.'') (emit (OpenRead path) w))"
    by (simp add: load_commands_file_present blank)
  have 2: "args_file a = Some path \<and> path \<noteq> [] \<and> files w path = None \<longrightarrow>
        load_commands a w
          = (None, emit (Print (''[ERROR] Command file '' @ [CHR 0x27] @ path @ [CHR 0x27]
                                  @ '' not found.'')) (emit (OpenRead path) w))"
    by (simp add: load_commands_file_missing)
  have 3: "\<not> truthy (args_file a) \<and> \<not> truthy (args_commands a) \<longrightarrow>
        load_commands a w
          = (None, emit (Print
               ''[ERROR] You must provide commands with --commands or a file with --file'') w)"
    by (simp add: load_commands_no_source)
  have 4: "fst (load_commands a w) = None \<longleftrightarrow>
        (truthy (args_file a)
           \<and> (case files w (the (args_file a)) of
                 None \<Rightarrow> True
               | Some body \<Rightarrow>
                   list_all (\<lambda>l. py_strip l = []) (readlines (universal_newlines body))))
        \<or> (\<not> truthy (args_file a) \<and> \<not> truthy (args_commands a))"
  proof (cases "truthy (args_file a)")
    case True
    then obtain q where q: "args_file a = Some q" "q \<noteq> []"
      by (auto simp: truthy_def split: option.splits)
    show ?thesis
    proof (cases "files w q")
      case None
      with q True show ?thesis by (simp add: load_commands_file_missing)
    next
      case (Some b)
      with q True show ?thesis by (simp add: load_commands_file_present blank Let_def)
    qed
  next
    case False
    show ?thesis
    proof (cases "truthy (args_commands a)")
      case True
      then obtain s where "args_commands a = Some s" "s \<noteq> []"
        by (auto simp: truthy_def split: option.splits)
      with False True show ?thesis by (simp add: load_commands_inline)
    next
      case no: False
      with False show ?thesis by (simp add: load_commands_no_source)
    qed
  qed
  have 5: "''[ERROR] Command file was empty.''
        \<noteq> ''[ERROR] Command file '' @ [CHR 0x27] @ path @ [CHR 0x27] @ '' not found.''"
    "''[ERROR] Command file was empty.''
        \<noteq> ''[ERROR] You must provide commands with --commands or a file with --file''"
    "''[ERROR] Command file '' @ [CHR 0x27] @ path @ [CHR 0x27] @ '' not found.''
        \<noteq> ''[ERROR] You must provide commands with --commands or a file with --file''"
    by simp_all
  from 1 2 3 4 5 show ?thesis by blast
qed

theorem C7_three_resolution_failures_witness:
  "load_commands \<lparr>args_host = ''192.168.1.102'', args_username = ''cisco'',
                   args_commands = None, args_file = Some ''commands.txt''\<rparr>
     \<lparr>files = [''commands.txt'' \<mapsto> ''\<newline>  \<newline>''], events = []\<rparr>
     = (None, \<lparr>files = [''commands.txt'' \<mapsto> ''\<newline>  \<newline>''],
               events = [OpenRead ''commands.txt'',
                         Print ''[ERROR] Command file was empty.'']\<rparr>)
   \<and> load_commands \<lparr>args_host = ''192.168.1.102'', args_username = ''cisco'',
                     args_commands = None, args_file = Some ''commands.txt''\<rparr>
       \<lparr>files = Map.empty, events = []\<rparr>
     = (None, \<lparr>files = Map.empty,
               events = [OpenRead ''commands.txt'',
                         Print ''[ERROR] Command file 'commands.txt' not found.'']\<rparr>)
   \<and> load_commands \<lparr>args_host = ''192.168.1.102'', args_username = ''cisco'',
                     args_commands = None, args_file = None\<rparr>
       \<lparr>files = Map.empty, events = []\<rparr>
     = (None, \<lparr>files = Map.empty,
               events = [Print
                 ''[ERROR] You must provide commands with --commands or a file with --file'']\<rparr>)"
proof -
  have a: "load_commands \<lparr>args_host = ''192.168.1.102'', args_username = ''cisco'',
                   args_commands = None, args_file = Some ''commands.txt''\<rparr>
     \<lparr>files = [''commands.txt'' \<mapsto> ''\<newline>  \<newline>''], events = []\<rparr>
     = (None, \<lparr>files = [''commands.txt'' \<mapsto> ''\<newline>  \<newline>''],
               events = [OpenRead ''commands.txt'',
                         Print ''[ERROR] Command file was empty.'']\<rparr>)"
    using C7_three_resolution_failures
      [where a = "\<lparr>args_host = ''192.168.1.102'', args_username = ''cisco'',
                   args_commands = None, args_file = Some ''commands.txt''\<rparr>"
         and path = "''commands.txt''" and body = "''\<newline>  \<newline>''"
         and w = "\<lparr>files = [''commands.txt'' \<mapsto> ''\<newline>  \<newline>''], events = []\<rparr>",
         THEN conjunct1]
    by (simp add: py_strip_def isspace_def emit_def)
  have b: "load_commands \<lparr>args_host = ''192.168.1.102'', args_username = ''cisco'',
                     args_commands = None, args_file = Some ''commands.txt''\<rparr>
       \<lparr>files = Map.empty, events = []\<rparr>
     = (None, \<lparr>files = Map.empty,
               events = [OpenRead ''commands.txt'',
                         Print ''[ERROR] Command file 'commands.txt' not found.'']\<rparr>)"
    using C7_three_resolution_failures
      [where a = "\<lparr>args_host = ''192.168.1.102'', args_username = ''cisco'',
                   args_commands = None, args_file = Some ''commands.txt''\<rparr>"
         and path = "''commands.txt''"
         and w = "\<lparr>files = Map.empty, events = []\<rparr>",
         THEN conjunct2, THEN conjunct1]
    by (simp add: emit_def)
  have c: "load_commands \<lparr>args_host = ''192.168.1.102'', args_username = ''cisco'',
                     args_commands = None, args_file = None\<rparr>
       \<lparr>files = Map.empty, events = []\<rparr>
     = (None, \<lparr>files = Map.empty,
               events = [Print
                 ''[ERROR] You must provide commands with --commands or a file with --file'']\<rparr>)"
    using C7_three_resolution_failures
      [where a = "\<lparr>args_host = ''192.168.1.102'', args_username = ''cisco'',
                   args_commands = None, args_file = None\<rparr>"
         and w = "\<lparr>files = Map.empty, events = []\<rparr>",
         THEN conjunct2, THEN conjunct2, THEN conjunct1]
    by (simp add: truthy_def emit_def)
  from a b c show ?thesis by (intro conjI)
qed

text \<open>
  C8 fails on the code for an inline string that resolves to an empty batch. With
  \<open>--commands ",,,"\<close> and no \<open>--file\<close>, \<open>load_commands\<close> returns the empty list without
  printing, and \<open>main\<close> returns at \<open>if not commands\<close>: nothing is printed at all, where a file
  with blank lines only gets the line \<open>Command file was empty\<close>. No password is asked and no
  connection is made in either case.
\<close>

theorem C8_empty_inline_batch_exits_silently:
  "main e \<lparr>args_host = ''192.168.1.102'', args_username = ''cisco'',
            args_commands = Some '',,,'', args_file = None\<rparr> w = w
   \<and> main e \<lparr>args_host = ''192.168.1.102'', args_username = ''cisco'',
              args_commands = None, args_file = Some ''commands.txt''\<rparr>
       \<lparr>files = [''commands.txt'' \<mapsto> ''\<newline>  \<newline>''], events = []\<rparr>
     = \<lparr>files = [''commands.txt'' \<mapsto> ''\<newline>  \<newline>''],
        events = [OpenRead ''commands.txt'', Print ''[ERROR] Command file was empty.'']\<rparr>"
proof -
  have v: "validate_ip ''192.168.1.102''"
    by (simp add: validate_ip_def ip_address_def IPv4Address_def ipv4_int_from_string_def
          parse_octet_def int_of_digits_def decimal_val_def)
  show ?thesis
    by (simp add: main_def v load_commands_def truthy_def py_strip_def isspace_def emit_def
          Let_def)
qed

text \<open>
  C5. \<open>validate_ip\<close> accepts exactly the strings that are a valid IPv4 address (a dotted quad)
  or a valid IPv6 address (eight groups, or fewer around one \<open>::\<close>, with or without a dotted
  quad at the end and a zone), and rejects every other string: it accepts \<open>192.168.1.102\<close>,
  \<open>2001:db8::ff00:42:8329\<close> and every dotted decimal of four numbers up to 255, and rejects
  \<open>999.999.999.999\<close>, \<open>not-an-ip\<close> and every string with neither a dot nor a colon. When
  the host is rejected, \<open>main\<close> prints the error line and returns: nothing else is printed,
  no file is read or written, no password is asked and no connection is made.
\<close>

theorem C5_invalid_host_stops_at_once:
  "(validate_ip ip_str \<longleftrightarrow> valid_ipv4_string ip_str \<or> valid_ipv6_string ip_str)
   \<and> validate_ip ''192.168.1.102'' \<and> validate_ip ''2001:db8::ff00:42:8329''
   \<and> \<not> validate_ip ''999.999.999.999'' \<and> \<not> validate_ip ''not-an-ip''
   \<and> (na \<le> 255 \<and> nb \<le> 255 \<and> nc \<le> 255 \<and> nd \<le> 255 \<longrightarrow>
        validate_ip (str_nat na @ ''.'' @ str_nat nb @ ''.'' @ str_nat nc @ ''.'' @ str_nat nd))
   \<and> (CHR ''.'' \<notin> set host \<and> CHR '':'' \<notin> set host \<longrightarrow> \<not> validate_ip host)
   \<and> (\<not> validate_ip (args_host a) \<longrightarrow>
        main e a w
          = emit (Print (''[ERROR] '' @ args_host a @ '' is NOT a valid IP address.'')) w)"
proof -
  have 0: "na \<le> 255 \<and> nb \<le> 255 \<and> nc \<le> 255 \<and> nd \<le> 255 \<longrightarrow>
        validate_ip (str_nat na @ ''.'' @ str_nat nb @ ''.'' @ str_nat nc @ ''.'' @ str_nat nd)"
    using validate_ip_dotted_decimal [of na nb nc nd] by blast
  have 1: "validate_ip ip_str \<longleftrightarrow> valid_ipv4_string ip_str \<or> valid_ipv6_string ip_str"
    by (rule validate_ip_iff)
  have 2: "validate_ip ''192.168.1.102''"
    by (simp add: validate_ip_def ip_address_def IPv4Address_def ipv4_int_from_string_def
          parse_octet_def int_of_digits_def decimal_val_def)
  have 3: "validate_ip ''2001:db8::ff00:42:8329''"
    by (simp add: validate_ip_def ip_address_def IPv4Address_def ipv4_int_from_string_def
          parse_octet_def int_of_digits_def decimal_val_def IPv6Address_def split_scope_id_def
          ipv6_int_from_string_def count_parts_def parse_hextet_def hex_val_def)
  have 4: "\<not> validate_ip ''999.999.999.999''"
    by (simp add: validate_ip_def ip_address_def IPv4Address_def ipv4_int_from_string_def
          parse_octet_def int_of_digits_def decimal_val_def IPv6Address_def split_scope_id_def
          ipv6_int_from_string_def)
  have 5: "\<not> validate_ip ''not-an-ip''"
    by (simp add: validate_ip_def ip_address_def IPv4Address_def ipv4_int_from_string_def
          parse_octet_def int_of_digits_def decimal_val_def IPv6Address_def split_scope_id_def
          ipv6_int_from_string_def)
  have 6: "CHR ''.'' \<notin> set host \<and> CHR '':'' \<notin> set host \<longrightarrow> \<not> validate_ip host"
    using validate_ip_needs_separator [of host] by blast
  have 7: "\<not> validate_ip (args_host a) \<longrightarrow>
        main e a w
          = emit (Print (''[ERROR] '' @ args_host a @ '' is NOT a valid IP address.'')) w"
    by (simp add: main_def)
  from 0 1 2 3 4 5 6 7 show ?thesis by blast
qed

theorem C5_invalid_host_witness:
  "main \<lparr>env_getpass = (\<lambda>attempt. ''s3cret''),
         env_ConnectHandler = (\<lambda>attempt dev. Inr (\<lambda>sent cmd. Inr ''OK'')),
         env_now = (\<lambda>attempt. \<lparr>dt_year = 2024, dt_month = 1, dt_day = 2, dt_hour = 3,
                                dt_minute = 4, dt_second = 5\<rparr>)\<rparr>
        \<lparr>args_host = ''not-an-ip'', args_username = ''cisco'',
         args_commands = Some ''show version'', args_file = None\<rparr>
        \<lparr>files = Map.empty, events = []\<rparr>
   = \<lparr>files = Map.empty, events = [Print ''[ERROR] not-an-ip is NOT a valid IP address.'']\<rparr>
   \<and> \<not> valid_ipv4_string ''192.168.1.256'' \<and> \<not> valid_ipv6_string ''192.168.1.256''
   \<and> validate_ip ''10.0.0.1''"
proof -
  have a: "main \<lparr>env_getpass = (\<lambda>attempt. ''s3cret''),
         env_ConnectHandler = (\<lambda>attempt dev. Inr (\<lambda>sent cmd. Inr ''OK'')),
         env_now = (\<lambda>attempt. \<lparr>dt_year = 2024, dt_month = 1, dt_day = 2, dt_hour = 3,
                                dt_minute = 4, dt_second = 5\<rparr>)\<rparr>
        \<lparr>args_host = ''not-an-ip'', args_username = ''cisco'',
         args_commands = Some ''show version'', args_file = None\<rparr>
        \<lparr>files = Map.empty, events = []\<rparr>
   = \<lparr>files = Map.empty, events = [Print ''[ERROR] not-an-ip is NOT a valid IP address.'']\<rparr>"
    using C5_invalid_host_stops_at_once
      [where a = "\<lparr>args_host = ''not-an-ip'', args_username = ''cisco'',
                   args_commands = Some ''show version'', args_file = None\<rparr>"
         and host = "''not-an-ip''" and ip_str = "''not-an-ip''"
         and na = 192 and nb = 168 and nc = 1 and nd = 102
         and w = "\<lparr>files = Map.empty, events = []\<rparr>"
         and e = "\<lparr>env_getpass = (\<lambda>attempt. ''s3cret''),
           env_ConnectHandler = (\<lambda>attempt dev. Inr (\<lambda>sent cmd. Inr ''OK'')),
           env_now = (\<lambda>attempt. \<lparr>dt_year = 2024, dt_month = 1, dt_day = 2, dt_hour = 3,
                                  dt_minute = 4, dt_second = 5\<rparr>)\<rparr>"]
    by (auto simp: emit_def)
  have n: "\<not> validate_ip ''192.168.1.256''"
    by (simp add: validate_ip_def ip_address_def IPv4Address_def ipv4_int_from_string_def
          parse_octet_def int_of_digits_def decimal_val_def IPv6Address_def split_scope_id_def
          ipv6_int_from_string_def)
  have b: "\<not> valid_ipv4_string ''192.168.1.256'' \<and> \<not> valid_ipv6_string ''192.168.1.256''"
    using n C5_invalid_host_stops_at_once [where ip_str = "''192.168.1.256''", THEN conjunct1]
    by simp
  have c: "validate_ip ''10.0.0.1''"
    using C5_invalid_host_stops_at_once
      [where na = 10 and nb = 0 and nc = 0 and nd = 1, THEN conjunct2, THEN conjunct2,
       THEN conjunct2, THEN conjunct2, THEN conjunct2, THEN conjunct1]
    by (simp add: str_nat.simps)
  from a b [THEN conjunct1] b [THEN conjunct2] c show ?thesis by (intro conjI)
qed



end
